theory Spec2Isabelle
  imports Main
begin

section \<open>Email warm-up backend: SMTP adapter, session store, IMAP listener, orchestrator\<close>

text \<open>
  A shallow embedding of the backend of the email warm-up platform:
  \<^item> \<^verbatim>\<open>services/smtpService.ts\<close> (\<^verbatim>\<open>createTransporter\<close>, \<^verbatim>\<open>sendEmail\<close>,
    \<^verbatim>\<open>testSmtpConnection\<close>);
  \<^item> \<^verbatim>\<open>db/sessionRepo.ts\<close> and \<^verbatim>\<open>db/mailLogRepo.ts\<close> over the tables of
    \<^verbatim>\<open>supabase/schema.sql\<close>;
  \<^item> \<^verbatim>\<open>services/imapService.ts\<close> (class \<^verbatim>\<open>ImapListener\<close>);
  \<^item> \<^verbatim>\<open>services/warmupOrchestrator.ts\<close>.

  Everything the TypeScript obtains from outside the process is an explicit argument of the
  model: the uuid drawn by \<^verbatim>\<open>uuidv4()\<close> or \<^verbatim>\<open>gen_random_uuid()\<close>, the clock
  (\<^verbatim>\<open>NOW()\<close>, \<^verbatim>\<open>CURRENT_DATE\<close>), the answer of the SMTP server, the text generator's
  answer. A thrown \<^verbatim>\<open>Error\<close> is the left injection of a sum.
\<close>

subsection \<open>JavaScript string helpers\<close>

text \<open>\<^verbatim>\<open>s.split(c)\<close> for a one-character separator: the pieces between the separators,
  never the empty list.\<close>

fun split_js :: "char \<Rightarrow> string \<Rightarrow> string list" where
  "split_js c [] = [[]]"
| "split_js c (x # xs) =
     (if x = c then [] # split_js c xs
      else (case split_js c xs of [] \<Rightarrow> [[x]] | p # ps \<Rightarrow> (x # p) # ps))"

text \<open>\<^verbatim>\<open>arr[i]\<close> is \<^verbatim>\<open>undefined\<close> out of range.\<close>

definition index_js :: "'a list \<Rightarrow> nat \<Rightarrow> 'a option" where
  "index_js xs i = (if i < length xs then Some (xs ! i) else None)"

text \<open>A template literal prints \<^verbatim>\<open>undefined\<close> for an undefined value.\<close>

definition template_js :: "string option \<Rightarrow> string" where
  "template_js v = (case v of None \<Rightarrow> ''undefined'' | Some s \<Rightarrow> s)"

text \<open>Truthiness of an optional string: \<^verbatim>\<open>undefined\<close> and \<^verbatim>\<open>''\<close> are falsy.\<close>

definition truthy :: "string option \<Rightarrow> bool" where
  "truthy v = (case v of None \<Rightarrow> False | Some s \<Rightarrow> s \<noteq> [])"

text \<open>\<^verbatim>\<open>a || b\<close> on optional strings.\<close>

definition or_js :: "string option \<Rightarrow> string option \<Rightarrow> string option" where
  "or_js a b = (if truthy a then a else b)"

subsection \<open>SMTP adapter (\<^verbatim>\<open>smtpService.ts\<close>)\<close>

record SmtpConfig =
  host :: string
  port :: int
  secure :: bool
  password :: string
  email :: string
  senderName :: string

record SendEmailParams =
  to :: string
  subject :: string
  body :: string
  inReplyTo :: "string option"
  references :: "string option"

record SendEmailResult =
  messageId :: string
  accepted :: "string list"

text \<open>The \<^verbatim>\<open>SMTPTransport.Options\<close> object handed to \<^verbatim>\<open>nodemailer.createTransport\<close>.\<close>

record TransportOptions =
  opt_host :: string
  opt_port :: int
  opt_secure :: bool
  opt_auth_user :: string
  opt_auth_pass :: string
  opt_tls_rejectUnauthorized :: bool
  opt_connectionTimeout :: nat
  opt_greetingTimeout :: nat
  opt_socketTimeout :: nat

text \<open>The \<^verbatim>\<open>nodemailer.SendMailOptions\<close> object; \<^verbatim>\<open>headers\<close> in insertion order.\<close>

record MailOptions =
  mail_from :: string
  mail_to :: string
  mail_subject :: string
  mail_text :: string
  mail_messageId :: string
  mail_headers :: "(string \<times> string) list"

definition createTransporter :: "SmtpConfig \<Rightarrow> TransportOptions" where
  "createTransporter config =
     \<lparr> opt_host = host config,
       opt_port = port config,
       opt_secure = (port config = 465),
       opt_auth_user = email config,
       opt_auth_pass = password config,
       opt_tls_rejectUnauthorized = False,
       opt_connectionTimeout = 30000,
       opt_greetingTimeout = 15000,
       opt_socketTimeout = 30000 \<rparr>"

text \<open>The message built by \<^verbatim>\<open>sendEmail\<close> before it is handed to the transport;
  \<open>uuid\<close> is the value \<^verbatim>\<open>uuidv4()\<close> returns.\<close>

definition sendEmail_messageId :: "string \<Rightarrow> SmtpConfig \<Rightarrow> string" where
  "sendEmail_messageId uuid smtpConfig =
     (let domain = index_js (split_js CHR ''@'' (email smtpConfig)) 1
      in ''<'' @ uuid @ ''@'' @ template_js domain @ ''>'')"

definition sendEmail_mailOptions :: "string \<Rightarrow> SmtpConfig \<Rightarrow> SendEmailParams \<Rightarrow> MailOptions" where
  "sendEmail_mailOptions uuid smtpConfig params =
     \<lparr> mail_from = ''\"'' @ senderName smtpConfig @ ''\" <'' @ email smtpConfig @ ''>'',
       mail_to = to params,
       mail_subject = subject params,
       mail_text = body params,
       mail_messageId = sendEmail_messageId uuid smtpConfig,
       mail_headers =
         (if truthy (inReplyTo params)
          then [(''In-Reply-To'', the (inReplyTo params)),
                (''References'', the (or_js (references params) (inReplyTo params)))]
          else []) \<rparr>"

text \<open>\<^verbatim>\<open>sendEmail\<close>: \<open>sendMail\<close> is \<^verbatim>\<open>transporter.sendMail\<close> of the transport created
  from the options, answering with the thrown error or with \<^verbatim>\<open>info.accepted\<close>. The
  error is rethrown as it is.\<close>

definition sendEmail ::
  "(TransportOptions \<Rightarrow> MailOptions \<Rightarrow> string + string list) \<Rightarrow> string \<Rightarrow>
   SmtpConfig \<Rightarrow> SendEmailParams \<Rightarrow> string + SendEmailResult" where
  "sendEmail sendMail uuid smtpConfig params =
     (case sendMail (createTransporter smtpConfig) (sendEmail_mailOptions uuid smtpConfig params) of
        Inl err \<Rightarrow> Inl err
      | Inr info_accepted \<Rightarrow>
          Inr \<lparr> messageId = sendEmail_messageId uuid smtpConfig, accepted = info_accepted \<rparr>)"

text \<open>\<^verbatim>\<open>testSmtpConnection\<close>: \<open>verify\<close> is \<^verbatim>\<open>transporter.verify\<close>.\<close>

definition testSmtpConnection ::
  "(TransportOptions \<Rightarrow> string + unit) \<Rightarrow> SmtpConfig \<Rightarrow> string + bool" where
  "testSmtpConnection verify config =
     (case verify (createTransporter config) of
        Inl err \<Rightarrow> Inl (''SMTP connection failed: '' @ err)
      | Inr _ \<Rightarrow> Inr True)"

subsection \<open>Tables (\<^verbatim>\<open>schema.sql\<close>, \<^verbatim>\<open>types/index.ts\<close>)\<close>

text \<open>
  Instants (\<^verbatim>\<open>TIMESTAMPTZ\<close>) and calendar days (\<^verbatim>\<open>DATE\<close>) are natural numbers;
  \<^verbatim>\<open>current_lead_index\<close> is a natural number (the column is a PostgreSQL \<^verbatim>\<open>INTEGER\<close>;
  the code only ever stores 0, a stored value or a stored value plus one). A table is the
  list of its rows. The password columns hold the clear text: the repositories encrypt on
  write and decrypt on read, and nothing below looks at a password.
\<close>

datatype session_status = pending | sending | waiting_reply | paused | completed | failed

datatype account_status = idle | running | account_paused

datatype direction = sent | received | replied

record WarmupSession =
  sess_id :: string
  domain_account_id :: string
  current_lead_index :: nat
  sess_status :: session_status
  last_message_id :: "string option"
  session_date :: nat
  started_at :: "nat option"
  completed_at :: "nat option"
  error_message :: "string option"
  sess_created_at :: nat
  sess_updated_at :: nat

record DomainAccount =
  dom_id :: string
  dom_sender_name :: string
  dom_email :: string
  dom_smtp_host :: string
  dom_smtp_port :: int
  dom_smtp_secure :: bool
  dom_smtp_password :: string
  dom_imap_host :: string
  dom_imap_port :: int
  dom_imap_secure :: bool
  dom_imap_password :: string
  dom_status :: account_status

text \<open>\<^verbatim>\<open>lead_accounts\<close> is kept in the order of \<^verbatim>\<open>leadAccountRepo.findAll\<close>
  (\<^verbatim>\<open>ORDER BY created_at ASC\<close>).\<close>

record LeadAccount =
  lead_id :: string
  lead_sender_name :: string
  lead_email :: string
  lead_smtp_host :: string
  lead_smtp_port :: int
  lead_smtp_secure :: bool
  lead_smtp_password :: string
  lead_imap_host :: string
  lead_imap_port :: int
  lead_imap_secure :: bool
  lead_imap_password :: string

text \<open>\<^verbatim>\<open>mail_logs\<close> in insertion order; the generated \<^verbatim>\<open>id\<close> and
  \<^verbatim>\<open>created_at\<close> of a log row are not kept.\<close>

record MailLog =
  log_session_id :: "string option"
  from_email :: string
  to_email :: string
  log_subject :: string
  log_body :: "string option"
  message_id :: "string option"
  in_reply_to :: "string option"
  log_direction :: direction
  lead_index :: "nat option"

datatype error = Error string

subsection \<open>Session store (\<^verbatim>\<open>sessionRepo.ts\<close>)\<close>

text \<open>\<^verbatim>\<open>result.rows[0] || null\<close>.\<close>

definition first_row :: "'a list \<Rightarrow> 'a option" where
  "first_row rows = (case rows of [] \<Rightarrow> None | r # _ \<Rightarrow> Some r)"

text \<open>\<^verbatim>\<open>ORDER BY created_at DESC\<close>: a stable insertion sort, newest first.\<close>

fun insert_desc :: "WarmupSession \<Rightarrow> WarmupSession list \<Rightarrow> WarmupSession list" where
  "insert_desc r [] = [r]"
| "insert_desc r (x # xs) =
     (if sess_created_at x < sess_created_at r then r # x # xs else x # insert_desc r xs)"

definition order_by_created_at_desc :: "WarmupSession list \<Rightarrow> WarmupSession list" where
  "order_by_created_at_desc rows = foldr insert_desc rows []"

definition sessionRepo_findById :: "string \<Rightarrow> WarmupSession list \<Rightarrow> WarmupSession option" where
  "sessionRepo_findById i rows = first_row (filter (\<lambda>r. sess_id r = i) rows)"

definition sessionRepo_findActiveToday ::
  "nat \<Rightarrow> string \<Rightarrow> WarmupSession list \<Rightarrow> WarmupSession option" where
  "sessionRepo_findActiveToday current_date domainAccountId rows =
     first_row (order_by_created_at_desc
       (filter (\<lambda>r. domain_account_id r = domainAccountId \<and> session_date r = current_date
                    \<and> sess_status r \<noteq> completed \<and> sess_status r \<noteq> failed) rows))"

definition sessionRepo_findCompletedToday ::
  "nat \<Rightarrow> string \<Rightarrow> WarmupSession list \<Rightarrow> WarmupSession option" where
  "sessionRepo_findCompletedToday current_date domainAccountId rows =
     first_row (filter (\<lambda>r. domain_account_id r = domainAccountId \<and> session_date r = current_date
                             \<and> sess_status r = completed) rows)"

text \<open>\<^verbatim>\<open>UPDATE warmup_sessions SET ... WHERE id = $1 RETURNING *\<close>: every row with the id
  is rewritten in place; the trigger of the schema stamps \<^verbatim>\<open>updated_at\<close>. The result
  is the table and the rewritten rows.\<close>

definition update_where_id ::
  "nat \<Rightarrow> string \<Rightarrow> (WarmupSession \<Rightarrow> WarmupSession) \<Rightarrow> WarmupSession list \<Rightarrow>
   WarmupSession list \<times> WarmupSession list" where
  "update_where_id now_ts i f rows =
     (let rows' = map (\<lambda>r. if sess_id r = i then (f r)\<lparr>sess_updated_at := now_ts\<rparr> else r) rows
      in (filter (\<lambda>r. sess_id r = i) rows', rows'))"

definition reset_row :: "nat \<Rightarrow> WarmupSession \<Rightarrow> WarmupSession" where
  "reset_row now_ts r =
     r\<lparr> sess_status := pending,
        current_lead_index := 0,
        last_message_id := None,
        error_message := None,
        completed_at := None,
        started_at := Some now_ts,
        sess_updated_at := now_ts \<rparr>"

text \<open>The row \<^verbatim>\<open>INSERT INTO warmup_sessions (domain_account_id, status, current_lead_index)
  VALUES ($1, 'pending', 0)\<close> stores, with the column defaults of the schema; \<open>new_id\<close> is
  the value of \<^verbatim>\<open>gen_random_uuid()\<close>.\<close>

definition inserted_row :: "nat \<Rightarrow> nat \<Rightarrow> string \<Rightarrow> string \<Rightarrow> WarmupSession" where
  "inserted_row now_ts current_date new_id domainAccountId =
     \<lparr> sess_id = new_id,
       domain_account_id = domainAccountId,
       current_lead_index = 0,
       sess_status = pending,
       last_message_id = None,
       session_date = current_date,
       started_at = Some now_ts,
       completed_at = None,
       error_message = None,
       sess_created_at = now_ts,
       sess_updated_at = now_ts \<rparr>"

text \<open>\<^verbatim>\<open>sessionRepo.create\<close>. The insert is refused by the database (the query throws)
  when the primary key is taken or the foreign key to \<^verbatim>\<open>domain_accounts\<close> has no target;
  the unique constraint on (domain account, day) cannot fail here, since no row of that
  pair was found. \<open>domain_ids\<close> are the ids of the \<^verbatim>\<open>domain_accounts\<close> table.
  The \<^verbatim>\<open>UPDATE\<close> of the reset names the id of a row that was just read and so returns
  it; were it to return nothing, \<^verbatim>\<open>result.rows[0]\<close> would be \<^verbatim>\<open>undefined\<close> and the
  caller's next property access would throw, which the last branch stands for.\<close>

definition sessionRepo_create ::
  "nat \<Rightarrow> nat \<Rightarrow> string \<Rightarrow> string list \<Rightarrow> string \<Rightarrow> WarmupSession list \<Rightarrow>
   error + (WarmupSession \<times> WarmupSession list)" where
  "sessionRepo_create now_ts current_date new_id domain_ids domainAccountId rows =
     (case filter (\<lambda>r. domain_account_id r = domainAccountId \<and> session_date r = current_date) rows of
        existing # _ \<Rightarrow>
          (case update_where_id now_ts (sess_id existing) (reset_row now_ts) rows of
             (r # _, rows') \<Rightarrow> Inr (r, rows')
           | ([], rows') \<Rightarrow> Inl (Error ''TypeError: result.rows[0] is undefined''))
      | [] \<Rightarrow>
          if new_id \<in> set (map sess_id rows) then
            Inl (Error ''duplicate key value violates unique constraint'')
          else if domainAccountId \<notin> set domain_ids then
            Inl (Error ''insert or update on table violates foreign key constraint'')
          else
            (let r = inserted_row now_ts current_date new_id domainAccountId
             in Inr (r, rows @ [r])))"

text \<open>The \<^verbatim>\<open>extras\<close> argument of \<^verbatim>\<open>updateStatus\<close>: the outer \<open>None\<close> is an absent
  key, an inner \<open>None\<close> is \<^verbatim>\<open>null\<close>.\<close>

record extras =
  x_current_lead_index :: "nat option"
  x_last_message_id :: "string option"
  x_error_message :: "string option option"
  x_completed_at :: "nat option option"

definition no_extras :: extras where
  "no_extras = \<lparr> x_current_lead_index = None, x_last_message_id = None,
                  x_error_message = None, x_completed_at = None \<rparr>"

definition apply_extras :: "session_status \<Rightarrow> extras \<Rightarrow> WarmupSession \<Rightarrow> WarmupSession" where
  "apply_extras st x r =
     r\<lparr> sess_status := st,
        current_lead_index :=
          (case x_current_lead_index x of None \<Rightarrow> current_lead_index r | Some i \<Rightarrow> i),
        last_message_id :=
          (case x_last_message_id x of None \<Rightarrow> last_message_id r | Some m \<Rightarrow> Some m),
        error_message :=
          (case x_error_message x of None \<Rightarrow> error_message r | Some e \<Rightarrow> e),
        completed_at :=
          (case x_completed_at x of None \<Rightarrow> completed_at r | Some c \<Rightarrow> c) \<rparr>"

text \<open>\<^verbatim>\<open>sessionRepo.updateStatus\<close>: \<open>None\<close> when no row has the id.\<close>

definition sessionRepo_updateStatus ::
  "nat \<Rightarrow> string \<Rightarrow> session_status \<Rightarrow> extras \<Rightarrow> WarmupSession list \<Rightarrow>
   WarmupSession option \<times> WarmupSession list" where
  "sessionRepo_updateStatus now_ts i st x rows =
     (case update_where_id now_ts i (apply_extras st x) rows of
        (updated, rows') \<Rightarrow> (first_row updated, rows'))"

subsection \<open>Mail log (\<^verbatim>\<open>mailLogRepo.ts\<close>)\<close>

text \<open>\<^verbatim>\<open>data.message_id || null\<close>: an empty string is stored as \<^verbatim>\<open>null\<close>.\<close>

definition or_null :: "string option \<Rightarrow> string option" where
  "or_null v = (if truthy v then v else None)"

text \<open>\<^verbatim>\<open>mailLogRepo.create\<close> appends one row. The rows of \<^verbatim>\<open>warmup_sessions\<close> are
  never deleted by the code modelled here, so the foreign key of \<^verbatim>\<open>session_id\<close> holds
  for every id read from a session row.\<close>

definition mailLogRepo_create ::
  "string \<Rightarrow> string \<Rightarrow> string \<Rightarrow> string \<Rightarrow> string option \<Rightarrow> string option \<Rightarrow>
   string option \<Rightarrow> direction \<Rightarrow> nat option \<Rightarrow> MailLog list \<Rightarrow> MailLog list" where
  "mailLogRepo_create session_id from_e to_e subj body_v message_id_v in_reply_to_v dir lead_index_v logs =
     logs @ [\<lparr> log_session_id = Some session_id,
               from_email = from_e,
               to_email = to_e,
               log_subject = subj,
               log_body = or_null body_v,
               message_id = or_null message_id_v,
               in_reply_to = or_null in_reply_to_v,
               log_direction = dir,
               lead_index = lead_index_v \<rparr>]"

definition mailLogRepo_findBySession :: "string \<Rightarrow> MailLog list \<Rightarrow> MailLog list" where
  "mailLogRepo_findBySession sessionId logs = filter (\<lambda>l. log_session_id l = Some sessionId) logs"

subsection \<open>IMAP listener (\<^verbatim>\<open>imapService.ts\<close>)\<close>

record ImapConfig =
  imap_host :: string
  imap_port :: int
  imap_secure :: bool
  imap_password :: string
  imap_email :: string
  filterFromEmail :: "string option"

record IncomingEmail =
  in_messageId :: string
  in_from :: string
  in_to :: string
  in_subject :: string
  in_body :: string
  in_inReplyTo :: "string option"
  in_date :: nat

text \<open>
  An \<^verbatim>\<open>ImapListener\<close> object. The two callbacks are values of the types \<open>'e\<close> and
  \<open>'t\<close>: the listener only stores them and calls them. \<open>pollTimer\<close> and \<open>waitTimer\<close>
  say whether the interval, respectively the timeout, behind the handle is still going to
  fire: a cleared or a fired timer is \<open>False\<close>. (The field of the source keeps the handle
  of a fired timeout, but reads it only to clear it.) \<open>mailHandlers\<close> counts the
  handlers of the \<^verbatim>\<open>'mail'\<close> event that \<^verbatim>\<open>openInbox\<close> has registered.
\<close>

record ('e, 't) ImapListener =
  config :: ImapConfig
  onEmail :: 'e
  onTimeout :: "'t option"
  isConnected :: bool
  isDestroyed :: bool
  pollTimer :: bool
  waitTimer :: bool
  reconnectAttempts :: nat
  mailHandlers :: nat

definition MAX_RECONNECT_ATTEMPTS :: nat where
  "MAX_RECONNECT_ATTEMPTS = 5"

definition WAIT_TIMEOUT_MS :: nat where
  "WAIT_TIMEOUT_MS = 10 * 60 * 1000"

text \<open>What a method of the listener asks of the outside: a call of one of its callbacks, a
  call into the \<^verbatim>\<open>imap\<close> library, or a timer. The timers of the initial check and of a
  reconnect are never cleared; their firing is an event of its own below.\<close>

datatype timer_kind = InitialCheck | Reconnect | Poll | Wait

datatype ('e, 't) action =
    CallOnEmail 'e IncomingEmail
  | CallOnTimeout 't
  | ImapConnect
  | ImapEnd
  | ImapOpenBox
  | ImapSearch bool "string option"
  | SetTimer timer_kind nat

fun is_CallOnTimeout :: "('e, 't) action \<Rightarrow> bool" where
  "is_CallOnTimeout (CallOnTimeout _) = True"
| "is_CallOnTimeout _ = False"

fun is_CallOnEmail :: "('e, 't) action \<Rightarrow> bool" where
  "is_CallOnEmail (CallOnEmail _ _) = True"
| "is_CallOnEmail _ = False"

text \<open>The constructor, without the \<^verbatim>\<open>Imap\<close> object it creates.\<close>

definition new_ImapListener :: "ImapConfig \<Rightarrow> 'e \<Rightarrow> 't option \<Rightarrow> ('e, 't) ImapListener" where
  "new_ImapListener cfg on_email on_timeout =
     \<lparr> config = cfg, onEmail = on_email, onTimeout = on_timeout,
       isConnected = False, isDestroyed = False, pollTimer = False, waitTimer = False,
       reconnectAttempts = 0, mailHandlers = 0 \<rparr>"

definition stopPolling :: "('e, 't) ImapListener \<Rightarrow> ('e, 't) ImapListener" where
  "stopPolling l = (if pollTimer l then l\<lparr>pollTimer := False\<rparr> else l)"

definition clearWaitTimeout :: "('e, 't) ImapListener \<Rightarrow> ('e, 't) ImapListener" where
  "clearWaitTimeout l = (if waitTimer l then l\<lparr>waitTimer := False\<rparr> else l)"

definition startPolling :: "('e, 't) ImapListener \<Rightarrow> ('e, 't) ImapListener \<times> ('e, 't) action list" where
  "startPolling l = ((stopPolling l)\<lparr>pollTimer := True\<rparr>, [SetTimer Poll 30000])"

definition startWaitTimeout :: "('e, 't) ImapListener \<Rightarrow> ('e, 't) ImapListener \<times> ('e, 't) action list" where
  "startWaitTimeout l =
     (let l1 = clearWaitTimeout l
      in if onTimeout l1 = None then (l1, [])
         else (l1\<lparr>waitTimer := True\<rparr>, [SetTimer Wait WAIT_TIMEOUT_MS]))"

text \<open>\<^verbatim>\<open>fetchNewMessages\<close> starts a search for \<^verbatim>\<open>UNSEEN\<close>, with the \<^verbatim>\<open>FROM\<close>
  criterion when the filter is a non-empty string. What the search finds comes back as
  \<open>MessageEnd\<close> events.\<close>

definition fetchNewMessages :: "('e, 't) ImapListener \<Rightarrow> ('e, 't) action list" where
  "fetchNewMessages l =
     [ImapSearch True
        (if truthy (filterFromEmail (config l)) then filterFromEmail (config l) else None)]"

definition safeReconnect :: "('e, 't) ImapListener \<Rightarrow> ('e, 't) ImapListener \<times> ('e, 't) action list" where
  "safeReconnect l =
     (if isDestroyed l then (l, [])
      else
        (let l1 = l\<lparr>reconnectAttempts := reconnectAttempts l + 1\<rparr>
         in if reconnectAttempts l1 > MAX_RECONNECT_ATTEMPTS then
              (l1, case onTimeout l1 of None \<Rightarrow> [] | Some t \<Rightarrow> [CallOnTimeout t])
            else (l1, [SetTimer Reconnect (5000 * reconnectAttempts l1)])))"

text \<open>\<^verbatim>\<open>connect\<close>; \<open>throws\<close> says whether \<^verbatim>\<open>imap.connect()\<close> throws.\<close>

definition connect :: "bool \<Rightarrow> ('e, 't) ImapListener \<Rightarrow> ('e, 't) ImapListener \<times> ('e, 't) action list" where
  "connect throws l =
     (if isDestroyed l then (l, [])
      else if throws then (case safeReconnect l of (l1, acts) \<Rightarrow> (l1, ImapConnect # acts))
      else (l, [ImapConnect]))"

text \<open>\<^verbatim>\<open>disconnect\<close>; \<^verbatim>\<open>imap.end()\<close> is called unless the connection is already in
  the state \<^verbatim>\<open>disconnected\<close>, which is a matter of the library and not kept here.\<close>

definition disconnect :: "('e, 't) ImapListener \<Rightarrow> ('e, 't) ImapListener \<times> ('e, 't) action list" where
  "disconnect l =
     (clearWaitTimeout (stopPolling (l\<lparr>isDestroyed := True, isConnected := False\<rparr>)), [ImapEnd])"

text \<open>The events a listener reacts to: the four events of the connection wired in
  \<^verbatim>\<open>setupEventHandlers\<close>, the callback of \<^verbatim>\<open>openBox\<close> (with: did it fail), the
  \<^verbatim>\<open>'mail'\<close> event, the four timers, and the end of a fetched message, which runs
  \<^verbatim>\<open>parseMessage\<close> (\<open>None\<close> when the parser throws).\<close>

datatype levent =
    Ready
  | ImapError
  | End
  | Close
  | OpenBoxDone bool
  | Mail
  | InitialCheckTimer
  | PollTimer
  | WaitTimer
  | ReconnectTimer bool
  | MessageEnd "IncomingEmail option"

fun handle_event :: "levent \<Rightarrow> ('e, 't) ImapListener \<Rightarrow> ('e, 't) ImapListener \<times> ('e, 't) action list" where
  "handle_event Ready l = (l\<lparr>isConnected := True, reconnectAttempts := 0\<rparr>, [ImapOpenBox])"
| "handle_event ImapError l = (if \<not> isDestroyed l then safeReconnect l else (l, []))"
| "handle_event End l =
     (let l1 = l\<lparr>isConnected := False\<rparr>
      in if \<not> isDestroyed l1 then safeReconnect l1 else (l1, []))"
| "handle_event Close l =
     (let l1 = l\<lparr>isConnected := False\<rparr>
      in if \<not> isDestroyed l1 then safeReconnect l1 else (l1, []))"
| "handle_event (OpenBoxDone err) l =
     (if err then (l, [])
      else
        (let l1 = l\<lparr>mailHandlers := mailHandlers l + 1\<rparr>;
             (l2, acts2) = startPolling l1;
             (l3, acts3) = startWaitTimeout l2
         in (l3, SetTimer InitialCheck 2000 # acts2 @ acts3)))"
| "handle_event Mail l = (l, concat (replicate (mailHandlers l) (fetchNewMessages l)))"
| "handle_event InitialCheckTimer l =
     (if \<not> isDestroyed l \<and> isConnected l then (l, fetchNewMessages l) else (l, []))"
| "handle_event PollTimer l =
     (if pollTimer l then
        (if \<not> isDestroyed l \<and> isConnected l then (l, fetchNewMessages l) else (l, []))
      else (l, []))"
| "handle_event WaitTimer l =
     (if waitTimer l then
        (let l1 = l\<lparr>waitTimer := False\<rparr>
         in if \<not> isDestroyed l1 then
              (l1, case onTimeout l1 of None \<Rightarrow> [] | Some t \<Rightarrow> [CallOnTimeout t])
            else (l1, []))
      else (l, []))"
| "handle_event (ReconnectTimer throws) l =
     (if \<not> isDestroyed l then connect throws l else (l, []))"
| "handle_event (MessageEnd parsed) l =
     (case parsed of None \<Rightarrow> (l, []) | Some mail \<Rightarrow> (l, [CallOnEmail (onEmail l) mail]))"

text \<open>
  A listener on its own, driven by a list of events. The only thing a callback can do to
  the listener is to call its public \<^verbatim>\<open>disconnect\<close>; \<open>handler_disconnects\<close> says whether
  the \<^verbatim>\<open>onTimeout\<close> handler does so when it is called (\<^verbatim>\<open>skipToNextLead\<close> does, for the
  listeners of a registered orchestrator that is not paused). The result is the listener
  and everything it asked for, in order.
\<close>

definition step_listener ::
  "bool \<Rightarrow> levent \<Rightarrow> ('e, 't) ImapListener \<Rightarrow> ('e, 't) ImapListener \<times> ('e, 't) action list" where
  "step_listener handler_disconnects ev l =
     (case handle_event ev l of
        (l1, acts) \<Rightarrow>
          if handler_disconnects \<and> filter is_CallOnTimeout acts \<noteq> [] then
            (case disconnect l1 of (l2, acts2) \<Rightarrow> (l2, acts @ acts2))
          else (l1, acts))"

fun run_listener ::
  "bool \<Rightarrow> levent list \<Rightarrow> ('e, 't) ImapListener \<Rightarrow> ('e, 't) ImapListener \<times> ('e, 't) action list" where
  "run_listener h [] l = (l, [])"
| "run_listener h (ev # evs) l =
     (case step_listener h ev l of
        (l1, acts) \<Rightarrow> (case run_listener h evs l1 of (l2, acts2) \<Rightarrow> (l2, acts @ acts2)))"

subsection \<open>Orchestrator state (\<^verbatim>\<open>warmupOrchestrator.ts\<close>)\<close>

text \<open>
  The orchestrator keeps \<^verbatim>\<open>ActiveSession\<close> objects in the module-level map
  \<^verbatim>\<open>activeSessions\<close>; the callbacks it hands to its listeners and timers are closures over
  such an object. Objects are therefore kept in a store and named by a reference: the map
  holds references, and so do the closures. A closure is the datatype value of its captured
  variables.

  Every handler below is one \<^verbatim>\<open>async\<close> function of the source run from its first to
  its last statement; handlers of different events do not interleave inside one another.
  The store is taken to answer every query; the failures modelled are the ones the code
  itself raises or receives from the text generator and the SMTP server.
\<close>

datatype email_closure =
    LeadOnEmail nat string LeadAccount string "string \<times> string"
  | DomainOnEmail nat string string string

datatype timeout_closure =
    LeadOnTimeout nat string LeadAccount
  | DomainOnTimeout nat string string

text \<open>\<open>LeadOnEmail active domainAccountId lead originalMessageId originalEmail\<close> and
  \<open>DomainOnEmail active domainAccountId expectedFromEmail expectedInReplyTo\<close>: the
  variables in scope of the two arrow functions.\<close>

record ActiveSession =
  session :: "WarmupSession option"
  domainAccount :: DomainAccount
  leads :: "LeadAccount list"
  domainImapListener :: "nat option"
  leadImapListener :: "nat option"
  isPaused :: bool
  timers :: "nat list"

datatype timer_task =
    ReplyTimer string LeadAccount IncomingEmail "string \<times> string"
  | NextLeadTimer string

record state =
  warmup_sessions :: "WarmupSession list"
  domain_accounts :: "DomainAccount list"
  lead_accounts :: "LeadAccount list"
  mail_logs :: "MailLog list"
  activeSessions :: "string \<rightharpoonup> nat"
  active_objs :: "nat \<rightharpoonup> ActiveSession"
  listener_objs :: "nat \<rightharpoonup> (email_closure, timeout_closure) ImapListener"
  pending_timers :: "nat \<rightharpoonup> nat \<times> timer_task"
  next_ref :: nat

text \<open>What a handler draws from outside while it runs: the clock, the day, the uuid of the
  next message and of the next inserted row, the two operations of the text generator, the
  SMTP server, \<^verbatim>\<open>Math.floor(Math.random() * n)\<close>, and whether \<^verbatim>\<open>imap.connect()\<close>
  throws.\<close>

record env =
  env_now :: nat
  env_today :: nat
  env_uuid :: string
  env_row_id :: string
  env_generateOutboundEmail :: "string \<Rightarrow> string \<Rightarrow> string \<Rightarrow> error + string \<times> string"
  env_generateReplyEmail :: "string \<Rightarrow> string \<Rightarrow> string \<Rightarrow> string \<Rightarrow> error + string \<times> string"
  env_sendMail :: "TransportOptions \<Rightarrow> MailOptions \<Rightarrow> string + string list"
  env_random :: "nat \<Rightarrow> nat"
  env_connect_throws :: bool

definition TypeError :: error where
  "TypeError = Error ''TypeError: Cannot read properties of null''"

definition minDelayMs :: nat where "minDelayMs = 3 * 60 * 1000"
definition maxDelayMs :: nat where "maxDelayMs = 5 * 60 * 1000"

definition randomDelay :: "env \<Rightarrow> nat" where
  "randomDelay e = env_random e (maxDelayMs - minDelayMs + 1) + minDelayMs"

text \<open>\<^verbatim>\<open>s.toLowerCase().replace(/[<>\s]/g, '')\<close> on the bytes of an ASCII string.\<close>

definition toLowerCase_char :: "char \<Rightarrow> char" where
  "toLowerCase_char c =
     (let n = (of_char c :: nat) in if 65 \<le> n \<and> n \<le> 90 then char_of (n + 32) else c)"

definition is_space :: "char \<Rightarrow> bool" where
  "is_space c = ((of_char c :: nat) \<in> {9, 10, 11, 12, 13, 32})"

definition normalize_addr :: "string \<Rightarrow> string" where
  "normalize_addr s =
     filter (\<lambda>c. c \<noteq> CHR ''<'' \<and> c \<noteq> CHR ''>'' \<and> \<not> is_space c) (map toLowerCase_char s)"

definition domainAccountRepo_findById :: "string \<Rightarrow> DomainAccount list \<Rightarrow> DomainAccount option" where
  "domainAccountRepo_findById i rows = first_row (filter (\<lambda>a. dom_id a = i) rows)"

definition domainAccountRepo_updateStatus ::
  "string \<Rightarrow> account_status \<Rightarrow> DomainAccount list \<Rightarrow> DomainAccount list" where
  "domainAccountRepo_updateStatus i s rows =
     map (\<lambda>a. if dom_id a = i then a\<lparr>dom_status := s\<rparr> else a) rows"

definition status_name :: "session_status \<Rightarrow> string" where
  "status_name s =
     (case s of pending \<Rightarrow> ''pending'' | sending \<Rightarrow> ''sending''
      | waiting_reply \<Rightarrow> ''waiting_reply'' | paused \<Rightarrow> ''paused''
      | completed \<Rightarrow> ''completed'' | failed \<Rightarrow> ''failed'')"

text \<open>\<^verbatim>\<open>activeSessions.get(domainAccountId)\<close>: the reference and the object behind it.\<close>

definition get_active :: "state \<Rightarrow> string \<Rightarrow> (nat \<times> ActiveSession) option" where
  "get_active st d =
     (case activeSessions st d of
        None \<Rightarrow> None
      | Some r \<Rightarrow> (case active_objs st r of None \<Rightarrow> None | Some a \<Rightarrow> Some (r, a)))"

text \<open>An assignment to fields of the object behind a reference.\<close>

definition modify_active :: "nat \<Rightarrow> (ActiveSession \<Rightarrow> ActiveSession) \<Rightarrow> state \<Rightarrow> state" where
  "modify_active r f st =
     (case active_objs st r of
        None \<Rightarrow> st
      | Some a \<Rightarrow> st\<lparr>active_objs := (active_objs st)(r \<mapsto> f a)\<rparr>)"

text \<open>\<^verbatim>\<open>listener.disconnect()\<close> on the listener behind a reference.\<close>

definition disconnect_ref :: "nat \<Rightarrow> state \<Rightarrow> state" where
  "disconnect_ref l st =
     (case listener_objs st l of
        None \<Rightarrow> st
      | Some obj \<Rightarrow> st\<lparr>listener_objs := (listener_objs st)(l \<mapsto> fst (disconnect obj))\<rparr>)"

text \<open>\<^verbatim>\<open>if (active.leadImapListener) { active.leadImapListener.disconnect();
  active.leadImapListener = null; }\<close> and the same for the domain side.\<close>

definition drop_lead_listener :: "nat \<Rightarrow> state \<Rightarrow> state" where
  "drop_lead_listener r st =
     (case active_objs st r of
        None \<Rightarrow> st
      | Some a \<Rightarrow>
          (case leadImapListener a of
             None \<Rightarrow> st
           | Some l \<Rightarrow> modify_active r (\<lambda>a. a\<lparr>leadImapListener := None\<rparr>) (disconnect_ref l st)))"

definition drop_domain_listener :: "nat \<Rightarrow> state \<Rightarrow> state" where
  "drop_domain_listener r st =
     (case active_objs st r of
        None \<Rightarrow> st
      | Some a \<Rightarrow>
          (case domainImapListener a of
             None \<Rightarrow> st
           | Some l \<Rightarrow> modify_active r (\<lambda>a. a\<lparr>domainImapListener := None\<rparr>) (disconnect_ref l st)))"

text \<open>\<^verbatim>\<open>for (const timer of active.timers) clearTimeout(timer)\<close>.\<close>

definition clear_timers :: "nat list \<Rightarrow> state \<Rightarrow> state" where
  "clear_timers ts st = st\<lparr>pending_timers := fold (\<lambda>t m. m(t := None)) ts (pending_timers st)\<rparr>"

text \<open>\<^verbatim>\<open>const timer = setTimeout(task, delay); active.timers.push(timer)\<close>.\<close>

definition push_timer :: "nat \<Rightarrow> nat \<Rightarrow> timer_task \<Rightarrow> state \<Rightarrow> state" where
  "push_timer r delay task st =
     (let t = next_ref st;
          st1 = st\<lparr>pending_timers := (pending_timers st)(t \<mapsto> (delay, task)), next_ref := t + 1\<rparr>
      in modify_active r (\<lambda>a. a\<lparr>timers := timers a @ [t]\<rparr>) st1)"

definition cleanupSession :: "string \<Rightarrow> state \<Rightarrow> state" where
  "cleanupSession d st =
     (case get_active st d of
        None \<Rightarrow> st
      | Some (r, active) \<Rightarrow>
          (let st1 = (case leadImapListener active of None \<Rightarrow> st | Some l \<Rightarrow> disconnect_ref l st);
               st2 = (case domainImapListener active of None \<Rightarrow> st1 | Some l \<Rightarrow> disconnect_ref l st1);
               st3 = clear_timers (timers active) st2
           in st3\<lparr>activeSessions := (activeSessions st3)(d := None)\<rparr>))"

definition completeSession :: "env \<Rightarrow> string \<Rightarrow> state \<Rightarrow> error option \<times> state" where
  "completeSession e d st =
     (case get_active st d of
        None \<Rightarrow> (None, st)
      | Some (r, active) \<Rightarrow>
          (case session active of
             None \<Rightarrow> (Some TypeError, st)
           | Some s \<Rightarrow>
               (let rows' = snd (sessionRepo_updateStatus (env_now e) (sess_id s) completed
                                  (no_extras\<lparr>x_completed_at := Some (Some (env_now e))\<rparr>)
                                  (warmup_sessions st));
                    st1 = st\<lparr>warmup_sessions := rows'\<rparr>;
                    st2 = st1\<lparr>domain_accounts :=
                                domainAccountRepo_updateStatus d idle (domain_accounts st1)\<rparr>
                in (None, cleanupSession d st2))))"

definition failSession :: "env \<Rightarrow> string \<Rightarrow> string \<Rightarrow> state \<Rightarrow> error option \<times> state" where
  "failSession e d errorMessage st =
     (case get_active st d of
        None \<Rightarrow> (None, st)
      | Some (r, active) \<Rightarrow>
          (case session active of
             None \<Rightarrow> (Some TypeError, st)
           | Some s \<Rightarrow>
               (let rows' = snd (sessionRepo_updateStatus (env_now e) (sess_id s) failed
                                  (no_extras\<lparr>x_error_message := Some (Some errorMessage)\<rparr>)
                                  (warmup_sessions st));
                    st1 = st\<lparr>warmup_sessions := rows'\<rparr>;
                    st2 = st1\<lparr>domain_accounts :=
                                domainAccountRepo_updateStatus d idle (domain_accounts st1)\<rparr>
                in (None, cleanupSession d st2))))"

subsection \<open>The per-lead cycle\<close>

definition lead_imap_config :: "LeadAccount \<Rightarrow> string \<Rightarrow> ImapConfig" where
  "lead_imap_config lead from_filter =
     \<lparr> imap_host = lead_imap_host lead, imap_port = lead_imap_port lead,
       imap_secure = lead_imap_secure lead, imap_password = lead_imap_password lead,
       imap_email = lead_email lead, filterFromEmail = Some from_filter \<rparr>"

definition domain_imap_config :: "DomainAccount \<Rightarrow> string \<Rightarrow> ImapConfig" where
  "domain_imap_config da from_filter =
     \<lparr> imap_host = dom_imap_host da, imap_port = dom_imap_port da,
       imap_secure = dom_imap_secure da, imap_password = dom_imap_password da,
       imap_email = dom_email da, filterFromEmail = Some from_filter \<rparr>"

definition lead_smtp_config :: "LeadAccount \<Rightarrow> SmtpConfig" where
  "lead_smtp_config lead =
     \<lparr> host = lead_smtp_host lead, port = lead_smtp_port lead, secure = lead_smtp_secure lead,
       password = lead_smtp_password lead, email = lead_email lead,
       senderName = lead_sender_name lead \<rparr>"

definition domain_smtp_config :: "DomainAccount \<Rightarrow> SmtpConfig" where
  "domain_smtp_config da =
     \<lparr> host = dom_smtp_host da, port = dom_smtp_port da, secure = dom_smtp_secure da,
       password = dom_smtp_password da, email = dom_email da,
       senderName = dom_sender_name da \<rparr>"

text \<open>\<^verbatim>\<open>new ImapListener(...)\<close>, the assignment to the field of the active session, and
  \<^verbatim>\<open>listener.connect()\<close>.\<close>

definition setupLeadAutoReply ::
  "env \<Rightarrow> string \<Rightarrow> LeadAccount \<Rightarrow> string \<Rightarrow> string \<times> string \<Rightarrow> state \<Rightarrow> state" where
  "setupLeadAutoReply e d lead originalMessageId originalEmail st =
     (case get_active st d of
        None \<Rightarrow> st
      | Some (r, active) \<Rightarrow>
          (let st1 = drop_lead_listener r st;
               l = next_ref st1;
               leadListener = new_ImapListener
                   (lead_imap_config lead (dom_email (domainAccount active)))
                   (LeadOnEmail r d lead originalMessageId originalEmail)
                   (Some (LeadOnTimeout r d lead));
               st2 = st1\<lparr>listener_objs := (listener_objs st1)(l \<mapsto> leadListener),
                          next_ref := l + 1\<rparr>;
               st3 = modify_active r (\<lambda>a. a\<lparr>leadImapListener := Some l\<rparr>) st2
           in st3\<lparr>listener_objs :=
                     (listener_objs st3)(l \<mapsto> fst (connect (env_connect_throws e) leadListener))\<rparr>))"

definition setupDomainReplyListener ::
  "env \<Rightarrow> string \<Rightarrow> string \<Rightarrow> string \<Rightarrow> state \<Rightarrow> state" where
  "setupDomainReplyListener e d expectedFromEmail expectedInReplyTo st =
     (case get_active st d of
        None \<Rightarrow> st
      | Some (r, active) \<Rightarrow>
          (let st1 = drop_domain_listener r st;
               l = next_ref st1;
               domainListener = new_ImapListener
                   (domain_imap_config (domainAccount active) expectedFromEmail)
                   (DomainOnEmail r d expectedFromEmail expectedInReplyTo)
                   (Some (DomainOnTimeout r d expectedFromEmail));
               st2 = st1\<lparr>listener_objs := (listener_objs st1)(l \<mapsto> domainListener),
                          next_ref := l + 1\<rparr>;
               st3 = modify_active r (\<lambda>a. a\<lparr>domainImapListener := Some l\<rparr>) st2
           in st3\<lparr>listener_objs :=
                     (listener_objs st3)(l \<mapsto> fst (connect (env_connect_throws e) domainListener))\<rparr>))"

text \<open>\<^verbatim>\<open>processNextLead\<close>. The result says whether the promise is rejected, and with
  what.\<close>

definition processNextLead :: "env \<Rightarrow> string \<Rightarrow> state \<Rightarrow> error option \<times> state" where
  "processNextLead e d st =
     (case get_active st d of
        None \<Rightarrow> (None, st)
      | Some (r, active) \<Rightarrow>
          if isPaused active then (None, st)
          else
            (case session active of
               None \<Rightarrow> (Some TypeError, st)
             | Some s \<Rightarrow>
                 (let leadIndex = current_lead_index s in
                  if leadIndex \<ge> length (leads active) then completeSession e d st
                  else
                    (let currentLead = leads active ! leadIndex;
                         da = domainAccount active in
                     case env_generateOutboundEmail e (dom_sender_name da)
                            (lead_sender_name currentLead) (dom_email da) of
                       Inl err \<Rightarrow> (Some err, st)
                     | Inr (subj, bdy) \<Rightarrow>
                         (case sendEmail (env_sendMail e) (env_uuid e) (domain_smtp_config da)
                                 \<lparr> to = lead_email currentLead, subject = subj, body = bdy,
                                   inReplyTo = None, references = None \<rparr> of
                            Inl err \<Rightarrow> (Some (Error err), st)
                          | Inr sendResult \<Rightarrow>
                              (let st1 = st\<lparr>mail_logs :=
                                     mailLogRepo_create (sess_id s) (dom_email da)
                                       (lead_email currentLead) subj (Some bdy)
                                       (Some (messageId sendResult)) None sent (Some leadIndex)
                                       (mail_logs st)\<rparr>;
                                   (res, rows') = sessionRepo_updateStatus (env_now e) (sess_id s)
                                       waiting_reply
                                       (no_extras\<lparr>x_last_message_id := Some (messageId sendResult),
                                                  x_current_lead_index := Some leadIndex\<rparr>)
                                       (warmup_sessions st1);
                                   st2 = modify_active r (\<lambda>a. a\<lparr>session := res\<rparr>)
                                           (st1\<lparr>warmup_sessions := rows'\<rparr>)
                               in (None, setupLeadAutoReply e d currentLead (messageId sendResult)
                                           (subj, bdy) st2)))))))"

text \<open>The email callback of the lead-side listener. Whatever it throws is caught and
  logged, so it only returns a state.\<close>

definition lead_onEmail ::
  "env \<Rightarrow> nat \<Rightarrow> string \<Rightarrow> LeadAccount \<Rightarrow> string \<times> string \<Rightarrow> IncomingEmail \<Rightarrow> state \<Rightarrow> state" where
  "lead_onEmail e r d lead originalEmail incomingEmail st =
     (case active_objs st r of
        None \<Rightarrow> st
      | Some active \<Rightarrow>
          (let fromAddr = normalize_addr (in_from incomingEmail);
               domainAddr = normalize_addr (dom_email (domainAccount active)) in
           if fromAddr \<noteq> domainAddr then st
           else
             (case session active of
                None \<Rightarrow> st
              | Some s \<Rightarrow>
                  (let st1 = st\<lparr>mail_logs :=
                         mailLogRepo_create (sess_id s) (in_from incomingEmail) (lead_email lead)
                           (in_subject incomingEmail) (Some (in_body incomingEmail))
                           (Some (in_messageId incomingEmail)) None received
                           (Some (current_lead_index s)) (mail_logs st)\<rparr>;
                       st2 = drop_lead_listener r st1;
                       replyDelay = env_random e (300000 - 180000 + 1) + 180000
                   in push_timer r replyDelay (ReplyTimer d lead incomingEmail originalEmail) st2))))"

definition sendLeadReply ::
  "env \<Rightarrow> string \<Rightarrow> LeadAccount \<Rightarrow> IncomingEmail \<Rightarrow> string \<times> string \<Rightarrow> state \<Rightarrow>
   error option \<times> state" where
  "sendLeadReply e d lead incomingEmail originalEmail st =
     (case get_active st d of
        None \<Rightarrow> (None, st)
      | Some (r, active) \<Rightarrow>
          if isPaused active then (None, st)
          else
            (let da = domainAccount active in
             case env_generateReplyEmail e (lead_sender_name lead) (dom_sender_name da)
                    (fst originalEmail) (snd originalEmail) of
               Inl err \<Rightarrow> (Some err, st)
             | Inr (subj, bdy) \<Rightarrow>
                 (case sendEmail (env_sendMail e) (env_uuid e) (lead_smtp_config lead)
                         \<lparr> to = dom_email da, subject = subj, body = bdy,
                           inReplyTo = Some (in_messageId incomingEmail),
                           references = Some (in_messageId incomingEmail) \<rparr> of
                    Inl err \<Rightarrow> (Some (Error err), st)
                  | Inr sendResult \<Rightarrow>
                      (case session active of
                         None \<Rightarrow> (Some TypeError, st)
                       | Some s \<Rightarrow>
                           (let st1 = st\<lparr>mail_logs :=
                                  mailLogRepo_create (sess_id s) (lead_email lead) (dom_email da)
                                    subj (Some bdy) (Some (messageId sendResult))
                                    (Some (in_messageId incomingEmail)) replied
                                    (Some (current_lead_index s)) (mail_logs st)\<rparr>
                            in (None, setupDomainReplyListener e d (lead_email lead)
                                        (messageId sendResult) st1))))))"

text \<open>The email callback of the domain-side listener.\<close>

definition domain_onEmail ::
  "env \<Rightarrow> nat \<Rightarrow> string \<Rightarrow> string \<Rightarrow> IncomingEmail \<Rightarrow> state \<Rightarrow> state" where
  "domain_onEmail e r d expectedFromEmail incomingEmail st =
     (case active_objs st r of
        None \<Rightarrow> st
      | Some active \<Rightarrow>
          (let fromAddr = normalize_addr (in_from incomingEmail);
               expectedAddr = normalize_addr expectedFromEmail in
           if fromAddr \<noteq> expectedAddr then st
           else
             (case session active of
                None \<Rightarrow> st
              | Some s \<Rightarrow>
                  (let st1 = st\<lparr>mail_logs :=
                         mailLogRepo_create (sess_id s) (in_from incomingEmail)
                           (dom_email (domainAccount active)) (in_subject incomingEmail)
                           (Some (in_body incomingEmail)) (Some (in_messageId incomingEmail))
                           (or_null (in_inReplyTo incomingEmail)) received
                           (Some (current_lead_index s)) (mail_logs st)\<rparr>;
                       st2 = drop_domain_listener r st1;
                       nextIndex = current_lead_index s + 1;
                       (res, rows') = sessionRepo_updateStatus (env_now e) (sess_id s) sending
                           (no_extras\<lparr>x_current_lead_index := Some nextIndex\<rparr>)
                           (warmup_sessions st2);
                       st3 = modify_active r (\<lambda>a. a\<lparr>session := res\<rparr>)
                               (st2\<lparr>warmup_sessions := rows'\<rparr>)
                   in if nextIndex \<ge> length (leads active) then snd (completeSession e d st3)
                      else push_timer r (randomDelay e) (NextLeadTimer d) st3))))"

definition skipToNextLead :: "env \<Rightarrow> string \<Rightarrow> state \<Rightarrow> error option \<times> state" where
  "skipToNextLead e d st =
     (case get_active st d of
        None \<Rightarrow> (None, st)
      | Some (r, active) \<Rightarrow>
          if isPaused active then (None, st)
          else
            (let st1 = drop_lead_listener r st;
                 st2 = drop_domain_listener r st1 in
             case session active of
               None \<Rightarrow> (Some TypeError, st2)
             | Some s \<Rightarrow>
                 (let nextIndex = current_lead_index s + 1;
                      (res, rows') = sessionRepo_updateStatus (env_now e) (sess_id s) sending
                          (no_extras\<lparr>x_current_lead_index := Some nextIndex\<rparr>)
                          (warmup_sessions st2);
                      st3 = modify_active r (\<lambda>a. a\<lparr>session := res\<rparr>)
                              (st2\<lparr>warmup_sessions := rows'\<rparr>)
                  in if nextIndex \<ge> length (leads active) then completeSession e d st3
                     else (None, push_timer r 10000 (NextLeadTimer d) st3))))"

text \<open>The timeout callbacks of the two listeners: the log line reads
  \<^verbatim>\<open>active.session.id\<close> of the captured object, then \<^verbatim>\<open>skipToNextLead\<close> runs.\<close>

definition listener_onTimeout :: "env \<Rightarrow> nat \<Rightarrow> string \<Rightarrow> state \<Rightarrow> error option \<times> state" where
  "listener_onTimeout e r d st =
     (case active_objs st r of
        None \<Rightarrow> (None, st)
      | Some active \<Rightarrow>
          (case session active of
             None \<Rightarrow> (Some TypeError, st)
           | Some s \<Rightarrow> skipToNextLead e d st))"

subsection \<open>Control facade: start, pause, resume, stop\<close>

text \<open>The tail shared by the two successful branches of \<^verbatim>\<open>startWarmup\<close>: mark the
  account running, register a new active session, start \<^verbatim>\<open>processNextLead\<close> (whose
  rejection goes to \<^verbatim>\<open>failSession\<close>), return the session.\<close>

definition launch ::
  "env \<Rightarrow> string \<Rightarrow> DomainAccount \<Rightarrow> LeadAccount list \<Rightarrow> WarmupSession option \<Rightarrow> state \<Rightarrow>
   (error + WarmupSession option) \<times> state" where
  "launch e d da ls sess st =
     (let st1 = st\<lparr>domain_accounts := domainAccountRepo_updateStatus d running (domain_accounts st)\<rparr>;
          r = next_ref st1;
          activeSession = \<lparr> session = sess, domainAccount = da, leads = ls,
                            domainImapListener = None, leadImapListener = None,
                            isPaused = False, timers = [] \<rparr>;
          st2 = st1\<lparr>active_objs := (active_objs st1)(r \<mapsto> activeSession),
                     activeSessions := (activeSessions st1)(d \<mapsto> r),
                     next_ref := r + 1\<rparr>
      in case processNextLead e d st2 of
           (None, st3) \<Rightarrow> (Inr sess, st3)
         | (Some (Error msg), st3) \<Rightarrow> (Inr sess, snd (failSession e d msg st3)))"

definition startWarmup ::
  "env \<Rightarrow> string \<Rightarrow> state \<Rightarrow> (error + WarmupSession option) \<times> state" where
  "startWarmup e d st =
     (if activeSessions st d \<noteq> None then
        (Inl (Error ''Warm-up session already active for this domain account''), st)
      else
        (case domainAccountRepo_findById d (domain_accounts st) of
           None \<Rightarrow> (Inl (Error ''Domain account not found''), st)
         | Some da \<Rightarrow>
             (let ls = lead_accounts st in
              if length ls = 0 then
                (Inl (Error ''No lead accounts configured. Add at least one lead Gmail account.''), st)
              else
                (case sessionRepo_findCompletedToday (env_today e) d (warmup_sessions st) of
                   Some completedToday \<Rightarrow>
                     (let completedLeadCount = current_lead_index completedToday in
                      if completedLeadCount < length ls then
                        (case sessionRepo_updateStatus (env_now e) (sess_id completedToday) sending
                                (no_extras\<lparr>x_current_lead_index := Some completedLeadCount,
                                           x_completed_at := Some None,
                                           x_error_message := Some None\<rparr>)
                                (warmup_sessions st) of
                           (sess, rows') \<Rightarrow> launch e d da ls sess (st\<lparr>warmup_sessions := rows'\<rparr>))
                      else (Inl (Error ''All warm-up emails completed for today''), st))
                 | None \<Rightarrow>
                     (case sessionRepo_findActiveToday (env_today e) d (warmup_sessions st) of
                        Some s \<Rightarrow>
                          if sess_status s = paused then
                            (case sessionRepo_updateStatus (env_now e) (sess_id s) sending no_extras
                                    (warmup_sessions st) of
                               (None, rows') \<Rightarrow> (Inl TypeError, st\<lparr>warmup_sessions := rows'\<rparr>)
                             | (Some s', rows') \<Rightarrow>
                                 launch e d da ls (Some s') (st\<lparr>warmup_sessions := rows'\<rparr>))
                          else
                            (Inl (Error (''Session already exists with status: ''
                                           @ status_name (sess_status s))), st)
                      | None \<Rightarrow>
                          (case sessionRepo_create (env_now e) (env_today e) (env_row_id e)
                                  (map dom_id (domain_accounts st)) d (warmup_sessions st) of
                             Inl err \<Rightarrow> (Inl err, st)
                           | Inr (s', rows') \<Rightarrow>
                               launch e d da ls (Some s') (st\<lparr>warmup_sessions := rows'\<rparr>)))))))"

definition resumeWarmup ::
  "env \<Rightarrow> string \<Rightarrow> state \<Rightarrow> (error + WarmupSession option) \<times> state" where
  "resumeWarmup e d st = startWarmup e d st"

definition pauseWarmup ::
  "env \<Rightarrow> string \<Rightarrow> state \<Rightarrow> (error + WarmupSession option) \<times> state" where
  "pauseWarmup e d st =
     (case get_active st d of
        None \<Rightarrow> (Inl (Error ''No active warm-up session found for this domain account''), st)
      | Some (r, active) \<Rightarrow>
          (let st1 = modify_active r (\<lambda>a. a\<lparr>isPaused := True\<rparr>) st;
               st2 = drop_lead_listener r st1;
               st3 = drop_domain_listener r st2;
               st4 = modify_active r (\<lambda>a. a\<lparr>timers := []\<rparr>) (clear_timers (timers active) st3)
           in case session active of
                None \<Rightarrow> (Inl TypeError, st4)
              | Some s \<Rightarrow>
                  (let (res, rows') = sessionRepo_updateStatus (env_now e) (sess_id s) paused
                                        no_extras (warmup_sessions st4);
                       st5 = st4\<lparr>warmup_sessions := rows',
                                  domain_accounts :=
                                    domainAccountRepo_updateStatus d account_paused (domain_accounts st4)\<rparr>
                   in (Inr res, st5\<lparr>activeSessions := (activeSessions st5)(d := None)\<rparr>))))"

definition stopWarmup :: "env \<Rightarrow> string \<Rightarrow> state \<Rightarrow> error option \<times> state" where
  "stopWarmup e d st =
     (case get_active st d of
        None \<Rightarrow>
          (case sessionRepo_findActiveToday (env_today e) d (warmup_sessions st) of
             None \<Rightarrow> (None, st)
           | Some s \<Rightarrow>
               (let rows' = snd (sessionRepo_updateStatus (env_now e) (sess_id s) failed
                                  (no_extras\<lparr>x_error_message := Some (Some ''Manually stopped by user'')\<rparr>)
                                  (warmup_sessions st))
                in (None, st\<lparr>warmup_sessions := rows',
                              domain_accounts :=
                                domainAccountRepo_updateStatus d idle (domain_accounts st)\<rparr>)))
      | Some _ \<Rightarrow> failSession e d ''Manually stopped by user'' st)"

subsection \<open>Events\<close>

text \<open>A timer of the orchestrator fires: the reply timer of the lead callback, or the
  timer that moves on to the next lead.\<close>

definition run_task :: "env \<Rightarrow> timer_task \<Rightarrow> state \<Rightarrow> error option \<times> state" where
  "run_task e task st =
     (case task of
        ReplyTimer d lead incomingEmail originalEmail \<Rightarrow>
          (case get_active st d of
             None \<Rightarrow> (None, st)
           | Some (r, currentActive) \<Rightarrow>
               if isPaused currentActive then (None, st)
               else sendLeadReply e d lead incomingEmail originalEmail st)
      | NextLeadTimer d \<Rightarrow>
          (case processNextLead e d st of
             (None, st1) \<Rightarrow> (None, st1)
           | (Some (Error msg), st1) \<Rightarrow> failSession e d msg st1))"

text \<open>A listener calls back.\<close>

definition run_action :: "env \<Rightarrow> (email_closure, timeout_closure) action \<Rightarrow> state \<Rightarrow> state" where
  "run_action e a st =
     (case a of
        CallOnEmail c incomingEmail \<Rightarrow>
          (case c of
             LeadOnEmail r d lead originalMessageId originalEmail \<Rightarrow>
               lead_onEmail e r d lead originalEmail incomingEmail st
           | DomainOnEmail r d expectedFromEmail expectedInReplyTo \<Rightarrow>
               domain_onEmail e r d expectedFromEmail incomingEmail st)
      | CallOnTimeout c \<Rightarrow>
          (case c of
             LeadOnTimeout r d lead \<Rightarrow> snd (listener_onTimeout e r d st)
           | DomainOnTimeout r d expectedFromEmail \<Rightarrow> snd (listener_onTimeout e r d st))
      | _ \<Rightarrow> st)"

datatype event =
    StartWarmup string
  | ResumeWarmup string
  | PauseWarmup string
  | StopWarmup string
  | TimerFires nat
  | ListenerEvent nat levent

text \<open>One event of the running system: a call of the facade, a timer of the orchestrator,
  or an event of one of the listeners, whose callbacks run as the listener calls them.
  The handler of an event runs to its end within the event: every query, send and generator
  call it awaits returns before the next event is handled, and so does the
  \<^verbatim>\<open>processNextLead\<close> that \<^verbatim>\<open>startWarmup\<close> starts without awaiting it. Runs of
  handlers that overlap at an \<^verbatim>\<open>await\<close> are outside this model.\<close>

definition step :: "env \<Rightarrow> event \<Rightarrow> state \<Rightarrow> state" where
  "step e ev st =
     (case ev of
        StartWarmup d \<Rightarrow> snd (startWarmup e d st)
      | ResumeWarmup d \<Rightarrow> snd (resumeWarmup e d st)
      | PauseWarmup d \<Rightarrow> snd (pauseWarmup e d st)
      | StopWarmup d \<Rightarrow> snd (stopWarmup e d st)
      | TimerFires t \<Rightarrow>
          (case pending_timers st t of
             None \<Rightarrow> st
           | Some (delay, task) \<Rightarrow>
               snd (run_task e task (st\<lparr>pending_timers := (pending_timers st)(t := None)\<rparr>)))
      | ListenerEvent l lev \<Rightarrow>
          (case listener_objs st l of
             None \<Rightarrow> st
           | Some obj \<Rightarrow>
               (case handle_event lev obj of
                  (obj', acts) \<Rightarrow>
                    fold (run_action e) acts (st\<lparr>listener_objs := (listener_objs st)(l \<mapsto> obj')\<rparr>))))"

subsection \<open>Notions used in the properties\<close>

text \<open>No listener behind the reference is still listening: the object has been
  disconnected.\<close>

definition destroyed :: "state \<Rightarrow> nat \<Rightarrow> bool" where
  "destroyed st l = (case listener_objs st l of None \<Rightarrow> True | Some obj \<Rightarrow> isDestroyed obj)"

text \<open>The stored \<^verbatim>\<open>current_lead_index\<close> of the row with a given id.\<close>

definition index_of :: "WarmupSession list \<Rightarrow> string \<Rightarrow> nat option" where
  "index_of rows i = map_option current_lead_index (find (\<lambda>r. sess_id r = i) rows)"

text \<open>The stored status of the row with a given id.\<close>

definition status_of :: "WarmupSession list \<Rightarrow> string \<Rightarrow> session_status option" where
  "status_of rows i = map_option sess_status (find (\<lambda>r. sess_id r = i) rows)"

text \<open>In the environment the text generator and the SMTP server answer every request.\<close>

definition answers :: "env \<Rightarrow> bool" where
  "answers e =
     ((\<forall>x y z. \<exists>c. env_generateOutboundEmail e x y z = Inr c) \<and>
      (\<forall>opts m. \<exists>acc. env_sendMail e opts m = Inr acc))"

text \<open>No stored index is lower in the second table than in the first.\<close>

definition idx_le :: "WarmupSession list \<Rightarrow> WarmupSession list \<Rightarrow> bool" where
  "idx_le rows rows' =
     (\<forall>sid i. index_of rows sid = Some i \<longrightarrow> (\<exists>j. index_of rows' sid = Some j \<and> i \<le> j))"

text \<open>An action that calls one of the two callbacks.\<close>

definition is_callback :: "('e, 't) action \<Rightarrow> bool" where
  "is_callback a = (is_CallOnEmail a \<or> is_CallOnTimeout a)"

text \<open>
  The registry and the store agree: session ids are unique (the primary key), references
  handed out are below the allocation counter, no object is registered for two accounts,
  and the snapshot that a registered orchestrator holds is the stored row of that id and
  belongs to the account the orchestrator is registered for.
\<close>

definition registry_ok :: "state \<Rightarrow> bool" where
  "registry_ok st =
     (distinct (map sess_id (warmup_sessions st)) \<and>
      (\<forall>d r. activeSessions st d = Some r \<longrightarrow> r < next_ref st) \<and>
      (\<forall>d d' r. activeSessions st d = Some r \<longrightarrow> activeSessions st d' = Some r \<longrightarrow> d = d') \<and>
      (\<forall>d r a s. activeSessions st d = Some r \<longrightarrow> active_objs st r = Some a \<longrightarrow>
          session a = Some s \<longrightarrow>
          find (\<lambda>x. sess_id x = sess_id s) (warmup_sessions st) = Some s \<and>
          domain_account_id s = d))"

text \<open>The event hands a message to the email callback of a domain-side listener whose
  orchestrator object is not, or no longer, the one registered for its account.\<close>

definition stale_callback :: "state \<Rightarrow> event \<Rightarrow> bool" where
  "stale_callback st ev =
     (case ev of
        ListenerEvent l lev \<Rightarrow>
          (case lev of
             MessageEnd parsed \<Rightarrow>
               (case listener_objs st l of
                  None \<Rightarrow> False
                | Some obj \<Rightarrow>
                    (case onEmail obj of
                       DomainOnEmail r d x y \<Rightarrow> parsed \<noteq> None \<and> activeSessions st d \<noteq> Some r
                     | LeadOnEmail r d lead x y \<Rightarrow> False))
           | _ \<Rightarrow> False)
      | _ \<Rightarrow> False)"

text \<open>Two states with the same session table and registry, in which every object holds the
  same snapshot, the second one with an allocation counter at least as high.\<close>

definition same_core :: "state \<Rightarrow> state \<Rightarrow> bool" where
  "same_core st st' =
     (warmup_sessions st' = warmup_sessions st \<and>
      activeSessions st' = activeSessions st \<and>
      (\<forall>r. map_option session (active_objs st' r) = map_option session (active_objs st r)) \<and>
      next_ref st \<le> next_ref st')"

text \<open>A call of \<^verbatim>\<open>startWarmup\<close> is accepted and returns the row of the given id, and that
  row was failed: the call went through \<^verbatim>\<open>sessionRepo.create\<close>, which reused the row.\<close>

definition reuses_failed_row :: "env \<Rightarrow> string \<Rightarrow> state \<Rightarrow> string \<Rightarrow> bool" where
  "reuses_failed_row e d st sid =
     (case fst (startWarmup e d st) of
        Inl err \<Rightarrow> False
      | Inr None \<Rightarrow> False
      | Inr (Some row) \<Rightarrow> sess_id row = sid \<and> status_of (warmup_sessions st) sid = Some failed)"

text \<open>The event is such a start or resume.\<close>

definition reset_by :: "env \<Rightarrow> event \<Rightarrow> state \<Rightarrow> string \<Rightarrow> bool" where
  "reset_by e ev st sid =
     (case ev of
        StartWarmup d \<Rightarrow> reuses_failed_row e d st sid
      | ResumeWarmup d \<Rightarrow> reuses_failed_row e d st sid
      | _ \<Rightarrow> False)"

text \<open>A run of events in which no message reaches the domain-side callback of a replaced
  orchestrator and no start or resume reuses the row of the given id.\<close>

fun undisturbed :: "env \<Rightarrow> string \<Rightarrow> event list \<Rightarrow> state \<Rightarrow> bool" where
  "undisturbed e sid [] st = True"
| "undisturbed e sid (ev # evs) st =
     (\<not> stale_callback st ev \<and> \<not> reset_by e ev st sid \<and> undisturbed e sid evs (step e ev st))"

subsection \<open>Example states\<close>

definition row0 :: WarmupSession where
  "row0 = \<lparr> sess_id = ''s1'', domain_account_id = ''d1'', current_lead_index = 3,
            sess_status = failed, last_message_id = Some ''<m@warm.example>'', session_date = 7,
            started_at = Some 10, completed_at = None,
            error_message = Some ''Manually stopped by user'',
            sess_created_at = 10, sess_updated_at = 15 \<rparr>"


definition lead_imap_cfg0 :: ImapConfig where
  "lead_imap_cfg0 =
     \<lparr> imap_host = ''imap.gmail.com'', imap_port = 993, imap_secure = True,
       imap_password = ''app-pw'', imap_email = ''lead1@gmail.com'',
       filterFromEmail = Some ''me@warm.example'' \<rparr>"

definition mail0 :: IncomingEmail where
  "mail0 =
     \<lparr> in_messageId = ''<old@warm.example>'', in_from = ''me@warm.example'',
       in_to = ''lead1@gmail.com'', in_subject = ''Hello'', in_body = ''Hi there'',
       in_inReplyTo = None, in_date = 5 \<rparr>"

definition listener0 :: "(string, string) ImapListener" where
  "listener0 = new_ImapListener lead_imap_cfg0 ''onEmail'' (Some ''onTimeout'')"


definition dom1 :: DomainAccount where
  "dom1 =
     \<lparr> dom_id = ''d1'', dom_sender_name = ''Warm Sender'', dom_email = ''me@warm.example'',
       dom_smtp_host = ''smtp.warm.example'', dom_smtp_port = 587, dom_smtp_secure = False,
       dom_smtp_password = ''pw'', dom_imap_host = ''imap.warm.example'', dom_imap_port = 993,
       dom_imap_secure = True, dom_imap_password = ''pw'', dom_status = idle \<rparr>"

definition lead1 :: LeadAccount where
  "lead1 =
     \<lparr> lead_id = ''l1'', lead_sender_name = ''Lead One'', lead_email = ''lead1@gmail.com'',
       lead_smtp_host = ''smtp.gmail.com'', lead_smtp_port = 587, lead_smtp_secure = False,
       lead_smtp_password = ''app-pw'', lead_imap_host = ''imap.gmail.com'',
       lead_imap_port = 993, lead_imap_secure = True, lead_imap_password = ''app-pw'' \<rparr>"

definition lead2 :: LeadAccount where
  "lead2 = lead1\<lparr>lead_id := ''l2'', lead_sender_name := ''Lead Two'',
                  lead_email := ''lead2@gmail.com''\<rparr>"

text \<open>An environment in which the generator and the server always answer.\<close>

definition env0 :: env where
  "env0 =
     \<lparr> env_now = 100, env_today = 7, env_uuid = ''u-1'', env_row_id = ''s1'',
       env_generateOutboundEmail = (\<lambda>sender recipient addr. Inr (''Hello'', ''Hi there'')),
       env_generateReplyEmail = (\<lambda>replier sender subj bdy. Inr (''Re: '' @ subj, ''Thanks'')),
       env_sendMail = (\<lambda>opts m. Inr [mail_to m]),
       env_random = (\<lambda>n. 0),
       env_connect_throws = False \<rparr>"

text \<open>A store with one domain account, no session and no orchestrator; \<open>st_leads ls\<close> has
  the leads \<open>ls\<close>.\<close>

definition st_leads :: "LeadAccount list \<Rightarrow> state" where
  "st_leads ls =
     \<lparr> warmup_sessions = [], domain_accounts = [dom1], lead_accounts = ls, mail_logs = [],
       activeSessions = Map.empty, active_objs = Map.empty, listener_objs = Map.empty,
       pending_timers = Map.empty, next_ref = 0 \<rparr>"

text \<open>A message from the domain address that is not the one the session sent.\<close>

definition mail_other :: IncomingEmail where
  "mail_other = mail0\<lparr>in_messageId := ''<other@warm.example>''\<rparr>"


text \<open>The state that \<^verbatim>\<open>startWarmup\<close> leaves behind for the domain account with two
  leads: the first message is sent and logged, the session waits for the reply, the
  lead-side listener (object 1) of the active session (object 0) is connecting.\<close>

definition row_waiting :: WarmupSession where
  "row_waiting =
     \<lparr> sess_id = ''s1'', domain_account_id = ''d1'', current_lead_index = 0,
       sess_status = waiting_reply, last_message_id = Some ''<u-1@warm.example>'',
       session_date = 7, started_at = Some 100, completed_at = None, error_message = None,
       sess_created_at = 100, sess_updated_at = 100 \<rparr>"

definition log_sent1 :: MailLog where
  "log_sent1 =
     \<lparr> log_session_id = Some ''s1'', from_email = ''me@warm.example'',
       to_email = ''lead1@gmail.com'', log_subject = ''Hello'', log_body = Some ''Hi there'',
       message_id = Some ''<u-1@warm.example>'', in_reply_to = None, log_direction = sent,
       lead_index = Some 0 \<rparr>"

definition active_waiting :: "LeadAccount list \<Rightarrow> ActiveSession" where
  "active_waiting ls =
     \<lparr> session = Some row_waiting, domainAccount = dom1, leads = ls,
       domainImapListener = None, leadImapListener = Some 1, isPaused = False, timers = [] \<rparr>"

definition lead_listener1 :: "(email_closure, timeout_closure) ImapListener" where
  "lead_listener1 =
     new_ImapListener (lead_imap_config lead1 ''me@warm.example'')
       (LeadOnEmail 0 ''d1'' lead1 ''<u-1@warm.example>'' (''Hello'', ''Hi there''))
       (Some (LeadOnTimeout 0 ''d1'' lead1))"

definition st_waiting :: "LeadAccount list \<Rightarrow> state" where
  "st_waiting ls =
     \<lparr> warmup_sessions = [row_waiting],
       domain_accounts = [dom1\<lparr>dom_status := running\<rparr>],
       lead_accounts = ls,
       mail_logs = [log_sent1],
       activeSessions = [''d1'' \<mapsto> 0],
       active_objs = [0 \<mapsto> active_waiting ls],
       listener_objs = [1 \<mapsto> lead_listener1],
       pending_timers = Map.empty,
       next_ref = 2 \<rparr>"

text \<open>The operator pauses the waiting session: the orchestrator (object 0) is marked paused
  and taken out of the registry, its listener is disconnected, the row is paused.\<close>

definition st_paused :: "LeadAccount list \<Rightarrow> state" where
  "st_paused ls =
     (st_waiting ls)
       \<lparr> warmup_sessions := [row_waiting\<lparr>sess_status := paused\<rparr>],
         domain_accounts := [dom1\<lparr>dom_status := account_paused\<rparr>],
         activeSessions := Map.empty,
         active_objs := [0 \<mapsto> (active_waiting ls)\<lparr>leadImapListener := None, isPaused := True\<rparr>],
         listener_objs := [1 \<mapsto> lead_listener1\<lparr>isDestroyed := True\<rparr>] \<rparr>"

text \<open>The operator resumes: a new orchestrator (object 2) is registered for the same row,
  sends to the first lead again and listens with a new lead-side listener (object 3). The
  paused object 0 stays in memory with the snapshot it had.\<close>

definition lead_listener3 :: "(email_closure, timeout_closure) ImapListener" where
  "lead_listener3 =
     new_ImapListener (lead_imap_config lead1 ''me@warm.example'')
       (LeadOnEmail 2 ''d1'' lead1 ''<u-1@warm.example>'' (''Hello'', ''Hi there''))
       (Some (LeadOnTimeout 2 ''d1'' lead1))"

definition st_resumed :: "LeadAccount list \<Rightarrow> state" where
  "st_resumed ls =
     (st_paused ls)
       \<lparr> warmup_sessions := [row_waiting],
         domain_accounts := [dom1\<lparr>dom_status := running\<rparr>],
         mail_logs := [log_sent1, log_sent1],
         activeSessions := [''d1'' \<mapsto> 2],
         active_objs := (active_objs (st_paused ls))
            (2 \<mapsto> (active_waiting ls)\<lparr>domainAccount := dom1\<lparr>dom_status := account_paused\<rparr>,
                                           leadImapListener := Some 3\<rparr>),
         listener_objs := (listener_objs (st_paused ls))(3 \<mapsto> lead_listener3),
         next_ref := 4 \<rparr>"

text \<open>The new listener connects, opens the inbox and runs into its wait timeout: the first
  lead is skipped, the row and the snapshot of object 2 are at index 1, timer 4 will move on
  to the second lead. The snapshot of the paused object 0 is still at index 0.\<close>

definition row_second :: WarmupSession where
  "row_second = row_waiting\<lparr>sess_status := sending, current_lead_index := 1\<rparr>"

definition st_skipped :: "LeadAccount list \<Rightarrow> state" where
  "st_skipped ls =
     (st_resumed ls)
       \<lparr> warmup_sessions := [row_second],
         active_objs := (active_objs (st_paused ls))
            (2 \<mapsto> (active_waiting ls)\<lparr>session := Some row_second,
                                           domainAccount := dom1\<lparr>dom_status := account_paused\<rparr>,
                                           leadImapListener := None, timers := [4]\<rparr>),
         listener_objs := (listener_objs (st_paused ls))
            (3 \<mapsto> lead_listener3\<lparr>isDestroyed := True, mailHandlers := 1\<rparr>),
         pending_timers := [4 \<mapsto> (10000, NextLeadTimer ''d1'')],
         next_ref := 5 \<rparr>"

text \<open>A store whose only session is today's row of the domain account, failed at index 3,
  with no orchestrator.\<close>

definition st_failed :: "LeadAccount list \<Rightarrow> state" where
  "st_failed ls = (st_leads ls)\<lparr>warmup_sessions := [row0]\<rparr>"

section \<open>Properties\<close>

lemmas repo_defs = sessionRepo_create_def sessionRepo_updateStatus_def update_where_id_def
  apply_extras_def no_extras_def reset_row_def inserted_row_def first_row_def
  sessionRepo_findActiveToday_def sessionRepo_findCompletedToday_def order_by_created_at_desc_def
  domainAccountRepo_findById_def domainAccountRepo_updateStatus_def mailLogRepo_create_def
  or_null_def truthy_def or_js_def

lemmas smtp_defs = sendEmail_def sendEmail_mailOptions_def sendEmail_messageId_def
  createTransporter_def index_js_def template_js_def

lemmas listener_defs = safeReconnect_def connect_def disconnect_def startPolling_def
  startWaitTimeout_def stopPolling_def clearWaitTimeout_def fetchNewMessages_def
  new_ImapListener_def

lemmas orch_defs = startWarmup_def launch_def processNextLead_def setupLeadAutoReply_def
  setupDomainReplyListener_def lead_onEmail_def domain_onEmail_def sendLeadReply_def
  skipToNextLead_def listener_onTimeout_def completeSession_def failSession_def
  cleanupSession_def pauseWarmup_def stopWarmup_def resumeWarmup_def run_task_def
  run_action_def step_def get_active_def modify_active_def disconnect_ref_def
  drop_lead_listener_def drop_domain_listener_def clear_timers_def push_timer_def
  lead_imap_config_def domain_imap_config_def lead_smtp_config_def domain_smtp_config_def
  normalize_addr_def toLowerCase_char_def is_space_def randomDelay_def

lemmas example_defs = env0_def st_leads_def dom1_def lead1_def lead2_def mail0_def mail_other_def
  row_waiting_def log_sent1_def active_waiting_def lead_listener1_def st_waiting_def

lemmas replay_defs = st_paused_def lead_listener3_def st_resumed_def row_second_def st_skipped_def
  st_failed_def row0_def

lemma split_js_ne: "split_js c s \<noteq> []"
  by (induction s) (auto split: list.splits)

lemma split_js_no_sep: "c \<notin> set l \<Longrightarrow> split_js c (l @ c # r) = l # split_js c r"
  by (induction l) (auto split: list.splits)

lemma split_js_none: "c \<notin> set d \<Longrightarrow> split_js c d = [d]"
  by (induction d) (auto split: list.splits)

lemma domain_part:
  "CHR ''@'' \<notin> set l \<Longrightarrow> CHR ''@'' \<notin> set d \<Longrightarrow>
   index_js (split_js CHR ''@'' (l @ ''@'' @ d)) 1 = Some d"
  by (simp add: split_js_no_sep split_js_none index_js_def)

lemma createTransporter_secure_upd:
  "createTransporter (cfg\<lparr>secure := b\<rparr>) = createTransporter cfg"
  by (simp add: createTransporter_def)

lemma sendEmail_messageId_secure_upd:
  "sendEmail_messageId uuid (cfg\<lparr>secure := b\<rparr>) = sendEmail_messageId uuid cfg"
  by (simp add: sendEmail_messageId_def)

lemma sendEmail_mailOptions_secure_upd:
  "sendEmail_mailOptions uuid (cfg\<lparr>secure := b\<rparr>) params = sendEmail_mailOptions uuid cfg params"
  by (simp add: sendEmail_mailOptions_def sendEmail_messageId_secure_upd)

lemma opt_secure_createTransporter:
  "opt_secure (createTransporter cfg) = (port cfg = 465)"
  by (simp add: createTransporter_def)

text \<open>
  C10. \<^verbatim>\<open>createTransporter\<close> ignores the configured \<^verbatim>\<open>secure\<close> flag: TLS on connect is
  requested exactly when the port is 465, for every send and every connection test; the
  transport is never asked with options of any other kind.
\<close>

theorem createTransporter_ignores_secure:
  "opt_secure (createTransporter cfg) = (port cfg = 465) \<and>
   createTransporter (cfg\<lparr>secure := b\<rparr>) = createTransporter cfg \<and>
   sendEmail sendMail uuid (cfg\<lparr>secure := b\<rparr>) params = sendEmail sendMail uuid cfg params \<and>
   testSmtpConnection verify (cfg\<lparr>secure := b\<rparr>) = testSmtpConnection verify cfg \<and>
   sendEmail sendMail uuid cfg params =
     sendEmail (\<lambda>opts. if opt_secure opts = (port cfg = 465) then sendMail opts
                        else (\<lambda>_. Inl ''never used'')) uuid cfg params \<and>
   testSmtpConnection verify cfg =
     testSmtpConnection (\<lambda>opts. if opt_secure opts = (port cfg = 465) then verify opts
                                 else Inl ''never used'') cfg"
  by (simp add: sendEmail_def testSmtpConnection_def createTransporter_secure_upd
      sendEmail_messageId_secure_upd sendEmail_mailOptions_secure_upd opt_secure_createTransporter
      cong: sum.case_cong)

text \<open>
  Counterexample to C8 as stated: with \<^verbatim>\<open>references\<close> supplied, the References header
  is that value and not the one of \<^verbatim>\<open>inReplyTo\<close>.
\<close>

theorem sendEmail_references_counterexample:
  "\<not> (\<forall>uuid cfg p v. inReplyTo p = Some v \<longrightarrow>
        map_of (mail_headers (sendEmail_mailOptions uuid cfg p)) ''References'' = Some v)"
proof
  assume h: "\<forall>uuid cfg p v. inReplyTo p = Some v \<longrightarrow>
        map_of (mail_headers (sendEmail_mailOptions uuid cfg p)) ''References'' = Some v"
  let ?cfg = "\<lparr>host = ''smtp.gmail.com'', port = 587, secure = True, password = ''pw'',
               email = ''lead@gmail.com'', senderName = ''Lead''\<rparr>"
  let ?p = "\<lparr>to = ''me@warm.example'', subject = ''Re: hi'', body = ''ok'',
             inReplyTo = Some ''<a@warm.example>'', references = Some ''<b@warm.example>''\<rparr>"
  from h have "map_of (mail_headers (sendEmail_mailOptions ''u'' ?cfg ?p)) ''References''
             = Some ''<a@warm.example>''"
    by simp
  then show False
    by (simp add: sendEmail_mailOptions_def truthy_def or_js_def)
qed

text \<open>
  C8, amended. For a sending address \<open>l@d\<close> the Message-ID is \<open><uuid@d>\<close>, on the message
  handed to the server and in the result, which holds besides it exactly the recipients the
  server accepted. In-Reply-To is set to a non-empty \<^verbatim>\<open>inReplyTo\<close>; References is set
  then as well, to a non-empty \<^verbatim>\<open>references\<close> if there is one and to \<^verbatim>\<open>inReplyTo\<close>
  otherwise; without a non-empty \<^verbatim>\<open>inReplyTo\<close> neither header is set.
\<close>

theorem sendEmail_message_id_and_threading:
  assumes "sendMail (createTransporter cfg) (sendEmail_mailOptions uuid cfg p) = Inr acc"
      and "email cfg = l @ ''@'' @ d" and "CHR ''@'' \<notin> set l" and "CHR ''@'' \<notin> set d"
  shows "sendEmail sendMail uuid cfg p = Inr \<lparr>messageId = ''<'' @ uuid @ ''@'' @ d @ ''>'', accepted = acc\<rparr> \<and>
         mail_messageId (sendEmail_mailOptions uuid cfg p) = ''<'' @ uuid @ ''@'' @ d @ ''>'' \<and>
         map_of (mail_headers (sendEmail_mailOptions uuid cfg p)) ''In-Reply-To'' =
           (if truthy (inReplyTo p) then inReplyTo p else None) \<and>
         map_of (mail_headers (sendEmail_mailOptions uuid cfg p)) ''References'' =
           (if truthy (inReplyTo p) then (if truthy (references p) then references p else inReplyTo p)
            else None)"
proof -
  have mid: "sendEmail_messageId uuid cfg = ''<'' @ uuid @ ''@'' @ d @ ''>''"
    using assms(2-4) domain_part [of l d]
    by (simp add: sendEmail_messageId_def template_js_def)
  have a: "sendEmail sendMail uuid cfg p = Inr \<lparr>messageId = ''<'' @ uuid @ ''@'' @ d @ ''>'', accepted = acc\<rparr>"
    using assms(1) mid by (simp add: sendEmail_def)
  have b: "mail_messageId (sendEmail_mailOptions uuid cfg p) = ''<'' @ uuid @ ''@'' @ d @ ''>''"
    using mid by (simp add: sendEmail_mailOptions_def)
  have c: "map_of (mail_headers (sendEmail_mailOptions uuid cfg p)) ''In-Reply-To'' =
           (if truthy (inReplyTo p) then inReplyTo p else None)"
    by (auto simp: sendEmail_mailOptions_def truthy_def split: option.splits)
  have e: "map_of (mail_headers (sendEmail_mailOptions uuid cfg p)) ''References'' =
           (if truthy (inReplyTo p) then (if truthy (references p) then references p else inReplyTo p)
            else None)"
    by (auto simp: sendEmail_mailOptions_def truthy_def or_js_def split: option.splits)
  from a b c e show ?thesis by blast
qed


theorem sendEmail_message_id_and_threading_witness:
  "sendEmail (\<lambda>_ m. Inr [mail_to m]) ''u-1''
     \<lparr>host = ''smtp.gmail.com'', port = 587, secure = True, password = ''pw'',
      email = ''lead@gmail.com'', senderName = ''Lead''\<rparr>
     \<lparr>to = ''me@warm.example'', subject = ''Re: hi'', body = ''ok'',
      inReplyTo = Some ''<a@warm.example>'', references = None\<rparr>
   = Inr \<lparr>messageId = ''<u-1@gmail.com>'', accepted = [''me@warm.example'']\<rparr>"
  using sendEmail_message_id_and_threading
    [of "\<lambda>_ m. Inr [mail_to m]"
        "\<lparr>host = ''smtp.gmail.com'', port = 587, secure = True, password = ''pw'',
          email = ''lead@gmail.com'', senderName = ''Lead''\<rparr>"
        "''u-1''"
        "\<lparr>to = ''me@warm.example'', subject = ''Re: hi'', body = ''ok'',
          inReplyTo = Some ''<a@warm.example>'', references = None\<rparr>"
        "[''me@warm.example'']" "''lead''" "''gmail.com''"]
  by (simp add: sendEmail_mailOptions_def)

lemma filter_id_map_distinct:
  assumes "distinct (map sess_id rows)" and "e \<in> set rows" and "\<And>r. sess_id (g r) = sess_id r"
  shows "filter (\<lambda>r. sess_id r = sess_id e)
           (map (\<lambda>r. if sess_id r = sess_id e then g r else r) rows) = [g e]"
  using assms(1,2)
proof (induction rows)
  case Nil
  then show ?case by simp
next
  case (Cons a rows)
  show ?case
  proof (cases "a = e")
    case True
    with Cons.prems have "sess_id e \<notin> sess_id ` set rows" by simp
    then have "\<forall>r\<in>set rows. sess_id r \<noteq> sess_id e" by (metis imageI)
    then have "filter (\<lambda>r. sess_id r = sess_id e)
                 (map (\<lambda>r. if sess_id r = sess_id e then g r else r) rows) = []"
      by (induction rows) auto
    with True show ?thesis by (simp add: assms(3))
  next
    case False
    with Cons.prems have e: "e \<in> set rows" and d: "distinct (map sess_id rows)" by auto
    from Cons.prems e have "sess_id a \<noteq> sess_id e" by force
    with Cons.IH [OF d e] show ?thesis by simp
  qed
qed

lemma first_filter_mem: "filter P rows = e # rest \<Longrightarrow> e \<in> set rows \<and> P e"
proof -
  assume h: "filter P rows = e # rest"
  have "e \<in> set (filter P rows)" by (simp add: h)
  then show ?thesis by simp
qed

lemma filter_map_preserved:
  assumes "\<And>r. P (g r) = P r"
  shows "filter P (map g rows) = map g (filter P rows)"
  using assms by (induction rows) auto

lemma update_where_id_unique:
  assumes "distinct (map sess_id rows)" and "e \<in> set rows" and "\<And>r. sess_id (f r) = sess_id r"
  shows "update_where_id now_ts (sess_id e) f rows =
           ([(f e)\<lparr>sess_updated_at := now_ts\<rparr>],
            map (\<lambda>r. if sess_id r = sess_id e then (f r)\<lparr>sess_updated_at := now_ts\<rparr> else r) rows)"
  using filter_id_map_distinct [OF assms(1,2), of "\<lambda>r. (f r)\<lparr>sess_updated_at := now_ts\<rparr>"] assms(3)
  by (simp add: update_where_id_def)

lemma sessionRepo_create_existing:
  assumes d: "distinct (map sess_id rows)"
      and f: "filter (\<lambda>r. domain_account_id r = d_id \<and> session_date r = day) rows = e # rest"
  shows "sessionRepo_create now_ts day new_id doms d_id rows =
           Inr (reset_row now_ts e,
                map (\<lambda>r. if sess_id r = sess_id e then reset_row now_ts r else r) rows)"
proof -
  from f have e: "e \<in> set rows" using first_filter_mem by fast
  have "update_where_id now_ts (sess_id e) (reset_row now_ts) rows =
          ([reset_row now_ts e], map (\<lambda>r. if sess_id r = sess_id e then reset_row now_ts r else r) rows)"
    using update_where_id_unique [OF d e, of "reset_row now_ts" now_ts]
    by (simp add: reset_row_def)
  with f show ?thesis by (simp add: sessionRepo_create_def)
qed

lemma distinct_ids_after_reset:
  "distinct (map sess_id rows) \<Longrightarrow>
   distinct (map sess_id (map (\<lambda>r. if sess_id r = i then reset_row now_ts r else r) rows))"
proof -
  have "map sess_id (map (\<lambda>r. if sess_id r = i then reset_row now_ts r else r) rows) = map sess_id rows"
    by (induction rows) (simp_all add: reset_row_def)
  then show "distinct (map sess_id rows) \<Longrightarrow> ?thesis" by (simp only:)
qed

lemma safeReconnect_destroyed: "isDestroyed l \<Longrightarrow> safeReconnect l = (l, [])"
  by (simp add: safeReconnect_def)

lemma safeReconnect_timeouts_le_1:
  "length (filter is_CallOnTimeout (snd (safeReconnect l))) \<le> 1"
  by (simp add: safeReconnect_def Let_def split: option.splits)

lemma connect_timeouts_le_1:
  "length (filter is_CallOnTimeout (snd (connect b l))) \<le> 1"
proof (cases "safeReconnect l")
  case (Pair l1 acts)
  with safeReconnect_timeouts_le_1 [of l] show ?thesis by (simp add: connect_def)
qed

lemma startPolling_facts:
  "filter is_CallOnTimeout (snd (startPolling l)) = [] \<and>
   isDestroyed (fst (startPolling l)) = isDestroyed l"
  by (simp add: startPolling_def stopPolling_def)

lemma startWaitTimeout_facts:
  "filter is_CallOnTimeout (snd (startWaitTimeout l)) = [] \<and>
   isDestroyed (fst (startWaitTimeout l)) = isDestroyed l"
  by (simp add: startWaitTimeout_def clearWaitTimeout_def Let_def)

lemma openBoxDone_facts:
  "filter is_CallOnTimeout (snd (handle_event (OpenBoxDone err) l)) = [] \<and>
   isDestroyed (fst (handle_event (OpenBoxDone err) l)) = isDestroyed l"
proof (cases err)
  case True
  then show ?thesis by simp
next
  case False
  obtain l2 a2 where p: "startPolling (l\<lparr>mailHandlers := mailHandlers l + 1\<rparr>) = (l2, a2)"
    by (cases "startPolling (l\<lparr>mailHandlers := mailHandlers l + 1\<rparr>)")
  obtain l3 a3 where w: "startWaitTimeout l2 = (l3, a3)" by (cases "startWaitTimeout l2")
  from startPolling_facts [of "l\<lparr>mailHandlers := mailHandlers l + 1\<rparr>"] p
  have p': "filter is_CallOnTimeout a2 = []" "isDestroyed l2 = isDestroyed l" by simp_all
  from startWaitTimeout_facts [of l2] w
  have w': "filter is_CallOnTimeout a3 = []" "isDestroyed l3 = isDestroyed l2" by simp_all
  from False p w p' w' show ?thesis by (simp add: Let_def)
qed

lemma fetch_no_timeout: "filter is_CallOnTimeout (fetchNewMessages l) = []"
  by (simp add: fetchNewMessages_def)

lemma mail_no_timeout:
  "filter is_CallOnTimeout (concat (replicate n (fetchNewMessages l))) = []"
  by (induction n) (simp_all add: fetchNewMessages_def)

lemma handle_event_destroyed:
  "isDestroyed l \<Longrightarrow>
   filter is_CallOnTimeout (snd (handle_event ev l)) = [] \<and> isDestroyed (fst (handle_event ev l))"
proof (cases ev)
  case (OpenBoxDone err)
  assume "isDestroyed l"
  with openBoxDone_facts [of err l] OpenBoxDone show ?thesis by simp
next
  case Mail
  assume "isDestroyed l"
  with Mail mail_no_timeout show ?thesis by simp
next
  case (MessageEnd p)
  assume "isDestroyed l"
  with MessageEnd show ?thesis by (simp split: option.splits)
qed (simp_all add: safeReconnect_destroyed connect_def fetch_no_timeout Let_def)

lemma handle_event_timeouts_le_1:
  "length (filter is_CallOnTimeout (snd (handle_event ev l))) \<le> 1"
proof (cases ev)
  case (OpenBoxDone err)
  with openBoxDone_facts [of err l] show ?thesis by simp
next
  case Mail
  with mail_no_timeout [of "mailHandlers l" l] show ?thesis by simp
next
  case (MessageEnd p)
  then show ?thesis by (simp split: option.splits)
next
  case ImapError
  with safeReconnect_timeouts_le_1 [of l] show ?thesis by simp
next
  case End
  with safeReconnect_timeouts_le_1 [of "l\<lparr>isConnected := False\<rparr>"] show ?thesis by (simp add: Let_def)
next
  case Close
  with safeReconnect_timeouts_le_1 [of "l\<lparr>isConnected := False\<rparr>"] show ?thesis by (simp add: Let_def)
next
  case (ReconnectTimer b)
  with connect_timeouts_le_1 [of b l] show ?thesis by simp
next
  case WaitTimer
  then show ?thesis by (simp add: Let_def split: option.splits)
qed (simp_all add: fetch_no_timeout)

lemma step_listener_destroyed:
  "isDestroyed l \<Longrightarrow>
   filter is_CallOnTimeout (snd (step_listener h ev l)) = [] \<and> isDestroyed (fst (step_listener h ev l))"
  using handle_event_destroyed [of l ev]
  by (auto simp: step_listener_def split: prod.splits)

lemma step_listener_timeouts_le_1:
  "length (filter is_CallOnTimeout (snd (step_listener h ev l))) \<le> 1"
  using handle_event_timeouts_le_1 [of ev l]
  by (auto simp: step_listener_def disconnect_def split: prod.splits)

lemma step_listener_fired_destroyed:
  "filter is_CallOnTimeout (snd (step_listener True ev l)) \<noteq> [] \<Longrightarrow>
   isDestroyed (fst (step_listener True ev l))"
  by (simp add: step_listener_def disconnect_def stopPolling_def clearWaitTimeout_def
      split: prod.splits if_splits)

lemma run_listener_destroyed:
  "isDestroyed l \<Longrightarrow>
   filter is_CallOnTimeout (snd (run_listener h evs l)) = [] \<and> isDestroyed (fst (run_listener h evs l))"
proof (induction evs arbitrary: l)
  case Nil
  then show ?case by simp
next
  case (Cons ev evs)
  obtain l1 acts where s: "step_listener h ev l = (l1, acts)" by (cases "step_listener h ev l")
  with step_listener_destroyed [OF Cons.prems, of h ev]
  have d: "isDestroyed l1" and n: "filter is_CallOnTimeout acts = []" by auto
  from Cons.IH [OF d] s n show ?case by (auto split: prod.splits)
qed

lemma run_listener_at_most_once:
  "length (filter is_CallOnTimeout (snd (run_listener True evs l))) \<le> 1"
proof (induction evs arbitrary: l)
  case Nil
  then show ?case by simp
next
  case (Cons ev evs)
  obtain l1 acts where s: "step_listener True ev l = (l1, acts)" by (cases "step_listener True ev l")
  show ?case
  proof (cases "filter is_CallOnTimeout acts = []")
    case True
    with Cons.IH [of l1] s show ?thesis by (auto split: prod.splits)
  next
    case False
    with step_listener_fired_destroyed [of ev l] s have "isDestroyed l1" by simp
    from run_listener_destroyed [OF this, of True evs]
    have "filter is_CallOnTimeout (snd (run_listener True evs l1)) = []" by simp
    moreover from step_listener_timeouts_le_1 [of True ev l] s
    have "length (filter is_CallOnTimeout acts) \<le> 1" by simp
    ultimately show ?thesis using s by (auto split: prod.splits)
  qed
qed

lemma run_listener_fired_destroyed:
  "filter is_CallOnTimeout (snd (run_listener True evs l)) \<noteq> [] \<Longrightarrow>
   isDestroyed (fst (run_listener True evs l))"
proof (induction evs arbitrary: l)
  case Nil
  then show ?case by simp
next
  case (Cons ev evs)
  obtain l1 acts where s: "step_listener True ev l = (l1, acts)" by (cases "step_listener True ev l")
  show ?case
  proof (cases "filter is_CallOnTimeout acts = []")
    case True
    with Cons.prems s have "filter is_CallOnTimeout (snd (run_listener True evs l1)) \<noteq> []"
      by (auto split: prod.splits)
    from Cons.IH [OF this] s show ?thesis by (auto split: prod.splits)
  next
    case False
    with step_listener_fired_destroyed [of ev l] s have "isDestroyed l1" by simp
    from run_listener_destroyed [OF this, of True evs] s show ?thesis by (auto split: prod.splits)
  qed
qed

lemma destroyed_guarded_events_silent:
  assumes "isDestroyed l"
      and "ev \<in> {ImapError, End, Close, InitialCheckTimer, PollTimer, WaitTimer, ReconnectTimer b}"
  shows "snd (step_listener h ev l) = []"
proof -
  from assms have "snd (handle_event ev l) = []"
    by (auto simp: safeReconnect_destroyed connect_def Let_def)
  then obtain l1 where "handle_event ev l = (l1, [])" by (cases "handle_event ev l") simp
  then show ?thesis by (simp add: step_listener_def)
qed


text \<open>
  Counterexample to C2 as stated. A listener whose timeout handler leaves it connected calls
  the handler on the sixth and again on the seventh connection error. And a listener
  whose handler does disconnect it still hands a message that was being parsed to the email
  callback after the timeout has fired.
\<close>

theorem onTimeout_twice_counterexample:
  "length (filter is_CallOnTimeout (snd (run_listener False
      [ImapError, ImapError, ImapError, ImapError, ImapError, ImapError, ImapError] listener0))) = 2 \<and>
   snd (run_listener True [Ready, OpenBoxDone False, WaitTimer, MessageEnd (Some mail0)] listener0) =
     [ImapOpenBox, SetTimer InitialCheck 2000, SetTimer Poll 30000, SetTimer Wait 600000,
      CallOnTimeout ''onTimeout'', ImapEnd, CallOnEmail ''onEmail'' mail0]"
  by (simp add: listener0_def new_ImapListener_def step_listener_def listener_defs Let_def
      MAX_RECONNECT_ATTEMPTS_def WAIT_TIMEOUT_MS_def)

text \<open>
  C2, amended. When the timeout handler disconnects the listener, \<^verbatim>\<open>onTimeout\<close> is called
  at most once over any sequence of events, from any state of the listener; once it has been
  called the listener is destroyed; and a destroyed listener answers a connection error, end
  or close and each of its four timers with nothing at all: no fetch, no reconnect, no
  further timeout.
\<close>

theorem onTimeout_at_most_once_if_handler_disconnects:
  "length (filter is_CallOnTimeout (snd (run_listener True evs l))) \<le> 1 \<and>
   (filter is_CallOnTimeout (snd (run_listener True evs l)) \<noteq> [] \<longrightarrow>
      isDestroyed (fst (run_listener True evs l))) \<and>
   (isDestroyed l' \<longrightarrow>
      ev \<in> {ImapError, End, Close, InitialCheckTimer, PollTimer, WaitTimer, ReconnectTimer b} \<longrightarrow>
      snd (step_listener h ev l') = [])"
  using run_listener_at_most_once [of evs l] run_listener_fired_destroyed [of evs l]
    destroyed_guarded_events_silent [of l' ev b h]
  by blast

theorem onTimeout_at_most_once_if_handler_disconnects_witness:
  "length (filter is_CallOnTimeout (snd (run_listener True
      [Ready, OpenBoxDone False, WaitTimer, End] listener0))) = 1 \<and>
   isDestroyed (fst (run_listener True [Ready, OpenBoxDone False, WaitTimer, End] listener0)) \<and>
   snd (step_listener True PollTimer
      (fst (run_listener True [Ready, OpenBoxDone False, WaitTimer, End] listener0))) = []"
proof -
  let ?r = "run_listener True [Ready, OpenBoxDone False, WaitTimer, End] listener0"
  have fired: "filter is_CallOnTimeout (snd ?r) = [CallOnTimeout ''onTimeout'']"
    by (simp add: listener0_def new_ImapListener_def step_listener_def listener_defs Let_def
      MAX_RECONNECT_ATTEMPTS_def WAIT_TIMEOUT_MS_def)
  from onTimeout_at_most_once_if_handler_disconnects
         [of "[Ready, OpenBoxDone False, WaitTimer, End]" listener0 "fst ?r" PollTimer False True]
  have "isDestroyed (fst ?r)" and "isDestroyed (fst ?r) \<longrightarrow> snd (step_listener True PollTimer (fst ?r)) = []"
    using fired by simp_all
  with fired show ?thesis by simp
qed

lemma modify_active_proj [simp]:
  "warmup_sessions (modify_active r f st) = warmup_sessions st"
  "domain_accounts (modify_active r f st) = domain_accounts st"
  "lead_accounts (modify_active r f st) = lead_accounts st"
  "mail_logs (modify_active r f st) = mail_logs st"
  "activeSessions (modify_active r f st) = activeSessions st"
  "listener_objs (modify_active r f st) = listener_objs st"
  "pending_timers (modify_active r f st) = pending_timers st"
  "next_ref (modify_active r f st) = next_ref st"
  by (simp_all add: modify_active_def split: option.splits)

lemma modify_active_objs:
  "active_objs (modify_active r f st) r' =
     (if r' = r then map_option f (active_objs st r) else active_objs st r')"
  by (simp add: modify_active_def split: option.splits)

lemma disconnect_ref_proj [simp]:
  "warmup_sessions (disconnect_ref l st) = warmup_sessions st"
  "domain_accounts (disconnect_ref l st) = domain_accounts st"
  "lead_accounts (disconnect_ref l st) = lead_accounts st"
  "mail_logs (disconnect_ref l st) = mail_logs st"
  "activeSessions (disconnect_ref l st) = activeSessions st"
  "active_objs (disconnect_ref l st) = active_objs st"
  "pending_timers (disconnect_ref l st) = pending_timers st"
  "next_ref (disconnect_ref l st) = next_ref st"
  by (simp_all add: disconnect_ref_def split: option.splits)

lemma disconnect_ref_listeners:
  "listener_objs (disconnect_ref l st) l' =
     (if l' = l then map_option (\<lambda>obj. fst (disconnect obj)) (listener_objs st l)
      else listener_objs st l')"
  by (simp add: disconnect_ref_def split: option.splits)

lemma isDestroyed_disconnect [simp]: "isDestroyed (fst (disconnect obj))"
  by (simp add: disconnect_def stopPolling_def clearWaitTimeout_def)

lemma destroyed_disconnect_ref:
  "destroyed (disconnect_ref l st) l' = (l' = l \<or> destroyed st l')"
  by (auto simp: destroyed_def disconnect_ref_listeners split: option.splits)

lemma destroyed_cong: "listener_objs st' = listener_objs st \<Longrightarrow> destroyed st' l = destroyed st l"
  by (simp add: destroyed_def)

lemma drop_lead_listener_proj [simp]:
  "warmup_sessions (drop_lead_listener r st) = warmup_sessions st"
  "domain_accounts (drop_lead_listener r st) = domain_accounts st"
  "lead_accounts (drop_lead_listener r st) = lead_accounts st"
  "mail_logs (drop_lead_listener r st) = mail_logs st"
  "activeSessions (drop_lead_listener r st) = activeSessions st"
  "pending_timers (drop_lead_listener r st) = pending_timers st"
  "next_ref (drop_lead_listener r st) = next_ref st"
  by (simp_all add: drop_lead_listener_def split: option.splits)

lemma drop_domain_listener_proj [simp]:
  "warmup_sessions (drop_domain_listener r st) = warmup_sessions st"
  "domain_accounts (drop_domain_listener r st) = domain_accounts st"
  "lead_accounts (drop_domain_listener r st) = lead_accounts st"
  "mail_logs (drop_domain_listener r st) = mail_logs st"
  "activeSessions (drop_domain_listener r st) = activeSessions st"
  "pending_timers (drop_domain_listener r st) = pending_timers st"
  "next_ref (drop_domain_listener r st) = next_ref st"
  by (simp_all add: drop_domain_listener_def split: option.splits)

lemma drop_lead_listener_objs:
  "active_objs (drop_lead_listener r st) r' =
     (if r' = r then map_option (\<lambda>a. a\<lparr>leadImapListener := None\<rparr>) (active_objs st r)
      else active_objs st r')"
  by (cases "active_objs st r")
     (auto simp: drop_lead_listener_def modify_active_objs split: option.splits)

lemma drop_domain_listener_objs:
  "active_objs (drop_domain_listener r st) r' =
     (if r' = r then map_option (\<lambda>a. a\<lparr>domainImapListener := None\<rparr>) (active_objs st r)
      else active_objs st r')"
  by (cases "active_objs st r")
     (auto simp: drop_domain_listener_def modify_active_objs split: option.splits)

lemma clear_timers_proj [simp]:
  "warmup_sessions (clear_timers ts st) = warmup_sessions st"
  "domain_accounts (clear_timers ts st) = domain_accounts st"
  "lead_accounts (clear_timers ts st) = lead_accounts st"
  "mail_logs (clear_timers ts st) = mail_logs st"
  "activeSessions (clear_timers ts st) = activeSessions st"
  "active_objs (clear_timers ts st) = active_objs st"
  "listener_objs (clear_timers ts st) = listener_objs st"
  "next_ref (clear_timers ts st) = next_ref st"
  by (simp_all add: clear_timers_def)

lemma push_timer_proj [simp]:
  "warmup_sessions (push_timer r dl t st) = warmup_sessions st"
  "domain_accounts (push_timer r dl t st) = domain_accounts st"
  "lead_accounts (push_timer r dl t st) = lead_accounts st"
  "mail_logs (push_timer r dl t st) = mail_logs st"
  "activeSessions (push_timer r dl t st) = activeSessions st"
  "listener_objs (push_timer r dl t st) = listener_objs st"
  "pending_timers (push_timer r dl t st) = (pending_timers st)(next_ref st \<mapsto> (dl, t))"
  "next_ref (push_timer r dl t st) = next_ref st + 1"
  by (simp_all add: push_timer_def Let_def)

lemma push_timer_objs:
  "active_objs (push_timer r dl t st) r' =
     (if r' = r then map_option (\<lambda>a. a\<lparr>timers := timers a @ [next_ref st]\<rparr>) (active_objs st r)
      else active_objs st r')"
  by (simp add: push_timer_def Let_def modify_active_objs)

lemma cleanupSession_proj [simp]:
  "warmup_sessions (cleanupSession d st) = warmup_sessions st"
  "domain_accounts (cleanupSession d st) = domain_accounts st"
  "lead_accounts (cleanupSession d st) = lead_accounts st"
  "mail_logs (cleanupSession d st) = mail_logs st"
  "active_objs (cleanupSession d st) = active_objs st"
  "next_ref (cleanupSession d st) = next_ref st"
  by (simp_all add: cleanupSession_def Let_def split: option.splits prod.splits)

lemma cleanupSession_unregisters:
  "get_active st d \<noteq> None \<Longrightarrow> activeSessions (cleanupSession d st) = (activeSessions st)(d := None)"
  by (auto simp: cleanupSession_def Let_def split: option.splits prod.splits)

lemma destroyed_upd [simp]:
  "destroyed (st\<lparr>activeSessions := x1\<rparr>) l = destroyed st l"
  "destroyed (st\<lparr>warmup_sessions := x2\<rparr>) l = destroyed st l"
  "destroyed (st\<lparr>domain_accounts := x3\<rparr>) l = destroyed st l"
  "destroyed (st\<lparr>mail_logs := x4\<rparr>) l = destroyed st l"
  "destroyed (clear_timers ts st) l = destroyed st l"
  "destroyed (modify_active r f st) l = destroyed st l"
  "destroyed (push_timer r dl t st) l = destroyed st l"
  by (simp_all add: destroyed_def)

lemma drop_lead_listener_destroyed:
  "destroyed (drop_lead_listener r st) l =
     (destroyed st l \<or> (\<exists>a. active_objs st r = Some a \<and> leadImapListener a = Some l))"
  by (auto simp: drop_lead_listener_def destroyed_disconnect_ref
      split: option.splits)

lemma drop_domain_listener_destroyed:
  "destroyed (drop_domain_listener r st) l =
     (destroyed st l \<or> (\<exists>a. active_objs st r = Some a \<and> domainImapListener a = Some l))"
  by (auto simp: drop_domain_listener_def destroyed_disconnect_ref
      split: option.splits)

lemma cleanupSession_destroyed:
  "destroyed st l \<Longrightarrow> destroyed (cleanupSession d st) l"
  by (auto simp: cleanupSession_def Let_def destroyed_disconnect_ref
      split: option.splits prod.splits)

lemma completeSession_rows:
  "warmup_sessions (snd (completeSession e d st)) = warmup_sessions st \<or>
   (\<exists>r a s. get_active st d = Some (r, a) \<and> session a = Some s \<and>
      warmup_sessions (snd (completeSession e d st)) =
        snd (sessionRepo_updateStatus (env_now e) (sess_id s) completed
               (no_extras\<lparr>x_completed_at := Some (Some (env_now e))\<rparr>) (warmup_sessions st)))"
  by (auto simp: completeSession_def Let_def split: option.splits prod.splits)

lemma completeSession_registered:
  assumes "get_active st d = Some (r, a)" and "session a = Some s"
  shows "completeSession e d st =
     (None, cleanupSession d
        (st\<lparr>warmup_sessions :=
               snd (sessionRepo_updateStatus (env_now e) (sess_id s) completed
                      (no_extras\<lparr>x_completed_at := Some (Some (env_now e))\<rparr>) (warmup_sessions st)),
             domain_accounts := domainAccountRepo_updateStatus d idle (domain_accounts st)\<rparr>))"
  using assms by (simp add: completeSession_def Let_def)

lemma get_active_SomeD:
  "get_active st d = Some (r, a) \<Longrightarrow> activeSessions st d = Some r \<and> active_objs st r = Some a"
  by (auto simp: get_active_def split: option.splits)

lemma updateStatus_rows:
  "snd (sessionRepo_updateStatus now_ts i sts x rows) =
     map (\<lambda>r. if sess_id r = i then (apply_extras sts x r)\<lparr>sess_updated_at := now_ts\<rparr> else r) rows"
  by (simp add: sessionRepo_updateStatus_def update_where_id_def Let_def)

lemma filter_map_upd_nonempty:
  assumes "i \<in> sess_id ` set rows" and "\<And>r. sess_id (g r) = sess_id r"
  shows "\<exists>r0 rest. r0 \<in> set rows \<and> sess_id r0 = i \<and>
           filter (\<lambda>r. sess_id r = i) (map (\<lambda>r. if sess_id r = i then g r else r) rows) = g r0 # rest"
  using assms(1)
proof (induction rows)
  case Nil
  then show ?case by simp
next
  case (Cons a rows)
  show ?case
  proof (cases "sess_id a = i")
    case True
    then show ?thesis by (auto simp: assms(2))
  next
    case False
    with Cons.prems have "i \<in> sess_id ` set rows" by auto
    from Cons.IH [OF this] False show ?thesis by auto
  qed
qed

lemma updateStatus_result:
  assumes "i \<in> sess_id ` set rows"
  shows "\<exists>r0. r0 \<in> set rows \<and> sess_id r0 = i \<and>
           fst (sessionRepo_updateStatus now_ts i sts x rows) =
             Some ((apply_extras sts x r0)\<lparr>sess_updated_at := now_ts\<rparr>)"
proof -
  from filter_map_upd_nonempty [OF assms, of "\<lambda>r. (apply_extras sts x r)\<lparr>sess_updated_at := now_ts\<rparr>"]
  obtain r0 rest where "r0 \<in> set rows" "sess_id r0 = i"
    "filter (\<lambda>r. sess_id r = i)
       (map (\<lambda>r. if sess_id r = i then (apply_extras sts x r)\<lparr>sess_updated_at := now_ts\<rparr> else r) rows)
     = (apply_extras sts x r0)\<lparr>sess_updated_at := now_ts\<rparr> # rest"
    by (auto simp: apply_extras_def)
  then show ?thesis
    by (auto simp: sessionRepo_updateStatus_def update_where_id_def Let_def first_row_def)
qed

lemma skipToNextLead_unfold:
  assumes "get_active st d = Some (r, a)" and "\<not> isPaused a" and "session a = Some s"
  shows "skipToNextLead e d st =
     (let st2 = drop_domain_listener r (drop_lead_listener r st);
          upd = sessionRepo_updateStatus (env_now e) (sess_id s) sending
                  (no_extras\<lparr>x_current_lead_index := Some (current_lead_index s + 1)\<rparr>)
                  (warmup_sessions st);
          st3 = modify_active r (\<lambda>a. a\<lparr>session := fst upd\<rparr>) (st2\<lparr>warmup_sessions := snd upd\<rparr>)
      in if current_lead_index s + 1 \<ge> length (leads a) then completeSession e d st3
         else (None, push_timer r 10000 (NextLeadTimer d) st3))"
  using assms by (simp add: skipToNextLead_def Let_def split: prod.splits)

lemma find_map_upd:
  assumes "\<And>r. sess_id (g r) = sess_id r"
  shows "find (\<lambda>r. sess_id r = i) (map (\<lambda>r. if sess_id r = j then g r else r) rows) =
         (if i = j then map_option g (find (\<lambda>r. sess_id r = i) rows)
          else find (\<lambda>r. sess_id r = i) rows)"
  by (induction rows) (auto simp: assms)

lemma find_Some_iff_mem: "i \<in> sess_id ` set rows \<Longrightarrow> \<exists>r0. find (\<lambda>r. sess_id r = i) rows = Some r0 \<and> sess_id r0 = i"
  by (induction rows) auto

lemma index_of_updateStatus:
  "index_of (snd (sessionRepo_updateStatus now_ts j sts x rows)) i =
     (if i = j then
        (case x_current_lead_index x of
           None \<Rightarrow> index_of rows i
         | Some k \<Rightarrow> map_option (\<lambda>_. k) (index_of rows i))
      else index_of rows i)"
  unfolding index_of_def updateStatus_rows
  by (subst find_map_upd)
     (auto simp: apply_extras_def option.map_comp comp_def split: option.splits)

lemma status_of_updateStatus:
  "status_of (snd (sessionRepo_updateStatus now_ts j sts x rows)) i =
     (if i = j then map_option (\<lambda>_. sts) (status_of rows i) else status_of rows i)"
  unfolding status_of_def updateStatus_rows
  by (subst find_map_upd)
     (auto simp: apply_extras_def option.map_comp comp_def split: option.splits)

lemma index_of_Some: "i \<in> sess_id ` set rows \<Longrightarrow> \<exists>k. index_of rows i = Some k"
  using find_Some_iff_mem [of i rows] by (auto simp: index_of_def)

lemma status_of_Some: "i \<in> sess_id ` set rows \<Longrightarrow> \<exists>k. status_of rows i = Some k"
  using find_Some_iff_mem [of i rows] by (auto simp: status_of_def)

lemma skip_state_before_branch:
  fixes e :: env
  assumes ga: "get_active st d = Some (r, a)" and s: "session a = Some s"
      and ex: "sess_id s \<in> sess_id ` set (warmup_sessions st)"
  defines "upd \<equiv> sessionRepo_updateStatus (env_now e) (sess_id s) sending
                  (no_extras\<lparr>x_current_lead_index := Some (current_lead_index s + 1)\<rparr>)
                  (warmup_sessions st)"
  defines "st3 \<equiv> modify_active r (\<lambda>a. a\<lparr>session := fst upd\<rparr>)
                   ((drop_domain_listener r (drop_lead_listener r st))\<lparr>warmup_sessions := snd upd\<rparr>)"
  shows "\<exists>s3. get_active st3 d =
                 Some (r, a\<lparr>leadImapListener := None, domainImapListener := None, session := Some s3\<rparr>) \<and>
               sess_id s3 = sess_id s \<and> current_lead_index s3 = current_lead_index s + 1"
    and "\<forall>l. leadImapListener a = Some l \<or> domainImapListener a = Some l \<longrightarrow> destroyed st3 l"
    and "index_of (warmup_sessions st3) (sess_id s) = Some (current_lead_index s + 1)"
    and "status_of (warmup_sessions st3) (sess_id s) = Some sending"
    and "pending_timers st3 = pending_timers st" and "next_ref st3 = next_ref st"
    and "activeSessions st3 = activeSessions st" and "mail_logs st3 = mail_logs st"
proof -
  from get_active_SomeD [OF ga] have reg: "activeSessions st d = Some r" and obj: "active_objs st r = Some a"
    by simp_all
  from updateStatus_result [OF ex, of "env_now e" sending
         "no_extras\<lparr>x_current_lead_index := Some (current_lead_index s + 1)\<rparr>"]
  obtain r0 where r0: "sess_id r0 = sess_id s"
    and f: "fst upd = Some ((apply_extras sending
              (no_extras\<lparr>x_current_lead_index := Some (current_lead_index s + 1)\<rparr>) r0)
              \<lparr>sess_updated_at := env_now e\<rparr>)"
    unfolding upd_def by blast
  let ?s3 = "(apply_extras sending
              (no_extras\<lparr>x_current_lead_index := Some (current_lead_index s + 1)\<rparr>) r0)
              \<lparr>sess_updated_at := env_now e\<rparr>"
  have o3: "active_objs st3 r =
      Some (a\<lparr>leadImapListener := None, domainImapListener := None, session := Some ?s3\<rparr>)"
    unfolding st3_def using obj f
    by (simp add: modify_active_objs drop_domain_listener_objs drop_lead_listener_objs)
  have a3: "activeSessions st3 = activeSessions st" unfolding st3_def by simp
  have "get_active st3 d =
      Some (r, a\<lparr>leadImapListener := None, domainImapListener := None, session := Some ?s3\<rparr>)"
    using o3 a3 reg by (simp add: get_active_def)
  moreover have "sess_id ?s3 = sess_id s" "current_lead_index ?s3 = current_lead_index s + 1"
    using r0 by (simp_all add: apply_extras_def no_extras_def)
  ultimately show "\<exists>s3. get_active st3 d =
                 Some (r, a\<lparr>leadImapListener := None, domainImapListener := None, session := Some s3\<rparr>) \<and>
               sess_id s3 = sess_id s \<and> current_lead_index s3 = current_lead_index s + 1"
    by blast
  show "\<forall>l. leadImapListener a = Some l \<or> domainImapListener a = Some l \<longrightarrow> destroyed st3 l"
    unfolding st3_def using obj
    by (auto simp: drop_domain_listener_destroyed drop_lead_listener_destroyed
        drop_lead_listener_objs)
  from index_of_Some [OF ex] obtain k where "index_of (warmup_sessions st) (sess_id s) = Some k" by blast
  then show "index_of (warmup_sessions st3) (sess_id s) = Some (current_lead_index s + 1)"
    unfolding st3_def upd_def by (simp add: index_of_updateStatus no_extras_def)
  from status_of_Some [OF ex] obtain k' where "status_of (warmup_sessions st) (sess_id s) = Some k'" by blast
  then show "status_of (warmup_sessions st3) (sess_id s) = Some sending"
    unfolding st3_def upd_def by (simp add: status_of_updateStatus)
  show "pending_timers st3 = pending_timers st" "next_ref st3 = next_ref st"
    "activeSessions st3 = activeSessions st" "mail_logs st3 = mail_logs st"
    unfolding st3_def by simp_all
qed

lemma fold_clear: "fold (\<lambda>t m. m(t := None)) ts m t' = (if t' \<in> set ts then None else m t')"
  by (induction ts arbitrary: m) auto

lemma cleanupSession_timers: "dom (pending_timers (cleanupSession d st)) \<subseteq> dom (pending_timers st)"
  by (auto simp: cleanupSession_def Let_def clear_timers_def fold_clear
      split: option.splits prod.splits if_splits)

lemma setupLeadAutoReply_proj [simp]:
  "warmup_sessions (setupLeadAutoReply e d lead m orig st) = warmup_sessions st"
  "domain_accounts (setupLeadAutoReply e d lead m orig st) = domain_accounts st"
  "mail_logs (setupLeadAutoReply e d lead m orig st) = mail_logs st"
  "activeSessions (setupLeadAutoReply e d lead m orig st) = activeSessions st"
  "pending_timers (setupLeadAutoReply e d lead m orig st) = pending_timers st"
  by (simp_all add: setupLeadAutoReply_def Let_def split: option.splits prod.splits)

lemma setupDomainReplyListener_proj [simp]:
  "warmup_sessions (setupDomainReplyListener e d x y st) = warmup_sessions st"
  "domain_accounts (setupDomainReplyListener e d x y st) = domain_accounts st"
  "mail_logs (setupDomainReplyListener e d x y st) = mail_logs st"
  "activeSessions (setupDomainReplyListener e d x y st) = activeSessions st"
  "pending_timers (setupDomainReplyListener e d x y st) = pending_timers st"
  by (simp_all add: setupDomainReplyListener_def Let_def split: option.splits prod.splits)

lemma processNextLead_sends:
  assumes ga: "get_active st d = Some (r, a)" and np: "\<not> isPaused a" and s: "session a = Some s"
      and lt: "current_lead_index s < length (leads a)"
      and an: "answers e"
  shows "\<exists>entry. mail_logs (snd (processNextLead e d st)) = mail_logs st @ [entry] \<and>
           fst (processNextLead e d st) = None \<and>
           log_direction entry = sent \<and> lead_index entry = Some (current_lead_index s) \<and>
           to_email entry = lead_email (leads a ! current_lead_index s)"
proof -
  let ?lead = "leads a ! current_lead_index s"
  let ?da = "domainAccount a"
  from an obtain subj bdy where g: "env_generateOutboundEmail e (dom_sender_name ?da)
      (lead_sender_name ?lead) (dom_email ?da) = Inr (subj, bdy)"
    unfolding answers_def by (metis surj_pair)
  from an obtain res where m: "sendEmail (env_sendMail e) (env_uuid e) (domain_smtp_config ?da)
      \<lparr>to = lead_email ?lead, subject = subj, body = bdy, inReplyTo = None, references = None\<rparr> = Inr res"
    unfolding answers_def sendEmail_def
    by (metis (no_types, lifting) sum.case(2))
  from ga np s lt g m show ?thesis
    by (simp add: processNextLead_def Let_def mailLogRepo_create_def split: prod.splits)
qed

lemma skip_final:
  fixes e :: env
  assumes ga: "get_active st d = Some (r, a)" and np: "\<not> isPaused a" and s: "session a = Some s"
      and ex: "sess_id s \<in> sess_id ` set (warmup_sessions st)"
      and last: "length (leads a) \<le> current_lead_index s + 1"
  defines "st' \<equiv> snd (skipToNextLead e d st)"
  shows "(\<forall>l. leadImapListener a = Some l \<or> domainImapListener a = Some l \<longrightarrow> destroyed st' l) \<and>
         index_of (warmup_sessions st') (sess_id s) = Some (current_lead_index s + 1) \<and>
         status_of (warmup_sessions st') (sess_id s) = Some completed \<and>
         activeSessions st' d = None \<and> next_ref st' = next_ref st \<and>
         dom (pending_timers st') \<subseteq> dom (pending_timers st)"
proof -
  define upd where "upd = sessionRepo_updateStatus (env_now e) (sess_id s) sending
                  (no_extras\<lparr>x_current_lead_index := Some (current_lead_index s + 1)\<rparr>)
                  (warmup_sessions st)"
  define st3 where "st3 = modify_active r (\<lambda>a. a\<lparr>session := fst upd\<rparr>)
                   ((drop_domain_listener r (drop_lead_listener r st))\<lparr>warmup_sessions := snd upd\<rparr>)"
  note b = skip_state_before_branch [OF ga s ex, of e, folded upd_def, folded st3_def]
  from b(1) obtain s3 where g3: "get_active st3 d =
      Some (r, a\<lparr>leadImapListener := None, domainImapListener := None, session := Some s3\<rparr>)"
    and id3: "sess_id s3 = sess_id s" by blast
  define st4 where "st4 = st3\<lparr>warmup_sessions :=
               snd (sessionRepo_updateStatus (env_now e) (sess_id s3) completed
                      (no_extras\<lparr>x_completed_at := Some (Some (env_now e))\<rparr>) (warmup_sessions st3)),
             domain_accounts := domainAccountRepo_updateStatus d idle (domain_accounts st3)\<rparr>"
  have "skipToNextLead e d st = completeSession e d st3"
    using skipToNextLead_unfold [OF ga np s, of e] last
    by (simp add: Let_def upd_def st3_def)
  also have "\<dots> = (None, cleanupSession d st4)"
    using completeSession_registered [OF g3, of s3 e] by (simp add: st4_def)
  finally have st': "st' = cleanupSession d st4" by (simp add: st'_def)
  have g4: "get_active st4 d \<noteq> None"
    using get_active_SomeD [OF g3] by (simp add: st4_def get_active_def)
  have d4: "\<forall>l. leadImapListener a = Some l \<or> domainImapListener a = Some l \<longrightarrow> destroyed st4 l"
    using b(2) by (simp add: st4_def)
  have i4: "index_of (warmup_sessions st4) (sess_id s) = Some (current_lead_index s + 1)"
    using b(3) id3 by (simp add: st4_def index_of_updateStatus no_extras_def)
  have s4: "status_of (warmup_sessions st4) (sess_id s) = Some completed"
    using b(4) id3 by (simp add: st4_def status_of_updateStatus)
  have "activeSessions st' d = None"
    unfolding st' using cleanupSession_unregisters [OF g4] by simp
  moreover have "next_ref st' = next_ref st" unfolding st' using b(6) by (simp add: st4_def)
  moreover have "dom (pending_timers st') \<subseteq> dom (pending_timers st)"
    unfolding st' using cleanupSession_timers [of d st4] b(5) by (simp add: st4_def)
  moreover have "\<forall>l. leadImapListener a = Some l \<or> domainImapListener a = Some l \<longrightarrow> destroyed st' l"
    unfolding st' using d4 cleanupSession_destroyed by blast
  ultimately show ?thesis using i4 s4 unfolding st' by simp
qed

lemma skip_nonfinal:
  fixes e e' :: env
  assumes ga: "get_active st d = Some (r, a)" and np: "\<not> isPaused a" and s: "session a = Some s"
      and ex: "sess_id s \<in> sess_id ` set (warmup_sessions st)"
      and more: "\<not> length (leads a) \<le> current_lead_index s + 1"
  defines "st' \<equiv> snd (skipToNextLead e d st)"
  shows "(\<forall>l. leadImapListener a = Some l \<or> domainImapListener a = Some l \<longrightarrow> destroyed st' l) \<and>
         index_of (warmup_sessions st') (sess_id s) = Some (current_lead_index s + 1) \<and>
         status_of (warmup_sessions st') (sess_id s) = Some sending \<and>
         pending_timers st' = (pending_timers st)(next_ref st \<mapsto> (10000, NextLeadTimer d)) \<and>
         (answers e' \<longrightarrow>
            (\<exists>entry. mail_logs (step e' (TimerFires (next_ref st)) st') = mail_logs st @ [entry] \<and>
               log_direction entry = sent \<and> lead_index entry = Some (current_lead_index s + 1) \<and>
               to_email entry = lead_email (leads a ! (current_lead_index s + 1))))"
proof -
  define upd where "upd = sessionRepo_updateStatus (env_now e) (sess_id s) sending
                  (no_extras\<lparr>x_current_lead_index := Some (current_lead_index s + 1)\<rparr>)
                  (warmup_sessions st)"
  define st3 where "st3 = modify_active r (\<lambda>a. a\<lparr>session := fst upd\<rparr>)
                   ((drop_domain_listener r (drop_lead_listener r st))\<lparr>warmup_sessions := snd upd\<rparr>)"
  note b = skip_state_before_branch [OF ga s ex, of e, folded upd_def, folded st3_def]
  from b(1) obtain s3 where g3: "get_active st3 d =
      Some (r, a\<lparr>leadImapListener := None, domainImapListener := None, session := Some s3\<rparr>)"
    and id3: "sess_id s3 = sess_id s" and ix3: "current_lead_index s3 = current_lead_index s + 1" by blast
  have "skipToNextLead e d st = (None, push_timer r 10000 (NextLeadTimer d) st3)"
    using skipToNextLead_unfold [OF ga np s, of e] more
    by (simp add: Let_def upd_def st3_def)
  then have st': "st' = push_timer r 10000 (NextLeadTimer d) st3" by (simp add: st'_def)
  have pt: "pending_timers st' = (pending_timers st)(next_ref st \<mapsto> (10000, NextLeadTimer d))"
    unfolding st' using b(5,6) by simp
  have mail: "answers e' \<Longrightarrow>
            (\<exists>entry. mail_logs (step e' (TimerFires (next_ref st)) st') = mail_logs st @ [entry] \<and>
               log_direction entry = sent \<and> lead_index entry = Some (current_lead_index s + 1) \<and>
               to_email entry = lead_email (leads a ! (current_lead_index s + 1)))"
  proof -
    assume an: "answers e'"
    define st5 where "st5 = st'\<lparr>pending_timers := (pending_timers st')(next_ref st := None)\<rparr>"
    let ?a5 = "a\<lparr>leadImapListener := None, domainImapListener := None, session := Some s3,
                  timers := timers a @ [next_ref st]\<rparr>"
    from get_active_SomeD [OF g3] have "activeSessions st3 d = Some r"
      "active_objs st3 r = Some (a\<lparr>leadImapListener := None, domainImapListener := None, session := Some s3\<rparr>)"
      by simp_all
    then have g5: "get_active st5 d = Some (r, ?a5)"
      unfolding st5_def st' using b(6) by (simp add: get_active_def push_timer_objs)
    have np5: "\<not> isPaused ?a5" using np by simp
    have s5: "session ?a5 = Some s3" by simp
    have lt5: "current_lead_index s3 < length (leads ?a5)" using more ix3 by simp
    from processNextLead_sends [OF g5 np5 s5 lt5 an]
    obtain entry where en: "mail_logs (snd (processNextLead e' d st5)) = mail_logs st5 @ [entry]"
      "fst (processNextLead e' d st5) = None" "log_direction entry = sent"
      "lead_index entry = Some (current_lead_index s3)"
      "to_email entry = lead_email (leads ?a5 ! current_lead_index s3)"
      by blast
    have m5: "mail_logs st5 = mail_logs st" unfolding st5_def st' using b(8) by simp
    obtain x2 where p5: "processNextLead e' d st5 = (None, x2)"
      using en(2) by (metis prod.collapse)
    have "step e' (TimerFires (next_ref st)) st' = snd (run_task e' (NextLeadTimer d) st5)"
      using pt by (simp add: step_def st5_def)
    also have "\<dots> = snd (processNextLead e' d st5)"
      by (simp add: run_task_def p5)
    finally have "step e' (TimerFires (next_ref st)) st' = snd (processNextLead e' d st5)" .
    with en m5 ix3 show ?thesis by simp
  qed
  have "\<forall>l. leadImapListener a = Some l \<or> domainImapListener a = Some l \<longrightarrow> destroyed st' l"
    unfolding st' using b(2) by simp
  moreover have "index_of (warmup_sessions st') (sess_id s) = Some (current_lead_index s + 1)"
    unfolding st' using b(3) by simp
  moreover have "status_of (warmup_sessions st') (sess_id s) = Some sending"
    unfolding st' using b(4) by simp
  ultimately show ?thesis using pt mail by blast
qed

lemma idx_le_refl [simp]: "idx_le rows rows"
  by (simp add: idx_le_def)

lemma idx_le_trans: "idx_le a b \<Longrightarrow> idx_le b c \<Longrightarrow> idx_le a c"
  unfolding idx_le_def by (meson order_trans)

lemma idx_le_updateStatus_None:
  "x_current_lead_index x = None \<Longrightarrow> idx_le rows (snd (sessionRepo_updateStatus now_ts i sts x rows))"
  by (simp add: idx_le_def index_of_updateStatus)

lemma idx_le_updateStatus_Some:
  assumes "x_current_lead_index x = Some k"
      and "\<And>i0. index_of rows i = Some i0 \<Longrightarrow> i0 \<le> k"
  shows "idx_le rows (snd (sessionRepo_updateStatus now_ts i sts x rows))"
  using assms by (auto simp: idx_le_def index_of_updateStatus)

lemma idx_le_updateStatus_None_pair:
  "sessionRepo_updateStatus now_ts i sts x rows = (res, rows') \<Longrightarrow>
   x_current_lead_index x = None \<Longrightarrow> idx_le rows rows'"
  using idx_le_updateStatus_None [where x = x and rows = rows and now_ts = now_ts and i = i and sts = sts]
  by simp

lemma idx_le_updateStatus_Some_pair:
  assumes "sessionRepo_updateStatus now_ts i sts x rows = (res, rows')"
      and "x_current_lead_index x = Some k"
      and "\<And>i0. index_of rows i = Some i0 \<Longrightarrow> i0 \<le> k"
  shows "idx_le rows rows'"
proof -
  have "idx_le rows (snd (sessionRepo_updateStatus now_ts i sts x rows))"
    by (rule idx_le_updateStatus_Some [OF assms(2)]) (rule assms(3))
  with assms(1) show ?thesis by simp
qed

lemma first_row_filter: "first_row (filter P xs) = find P xs"
  by (induction xs) (auto simp: first_row_def)

lemma completeSession_idx_le:
  "idx_le (warmup_sessions st) (warmup_sessions (snd (completeSession e d st)))"
  using completeSession_rows [of e d st]
  by (auto simp: idx_le_updateStatus_None no_extras_def)

lemma failSession_idx_le:
  "idx_le (warmup_sessions st) (warmup_sessions (snd (failSession e d msg st)))"
  by (auto simp: failSession_def Let_def idx_le_updateStatus_None no_extras_def
      split: option.splits prod.splits)

lemma pauseWarmup_idx_le:
  "idx_le (warmup_sessions st) (warmup_sessions (snd (pauseWarmup e d st)))"
  by (auto simp: pauseWarmup_def Let_def no_extras_def
      intro: idx_le_updateStatus_None_pair
      split: option.splits prod.splits)

lemma stopWarmup_idx_le:
  "idx_le (warmup_sessions st) (warmup_sessions (snd (stopWarmup e d st)))"
  using failSession_idx_le [of st e d "''Manually stopped by user''"]
  by (auto simp: stopWarmup_def Let_def idx_le_updateStatus_None no_extras_def
      split: option.splits prod.splits)

lemma processNextLead_idx_le:
  assumes cur: "\<And>r a s i. get_active st d = Some (r, a) \<Longrightarrow> session a = Some s \<Longrightarrow>
                  index_of (warmup_sessions st) (sess_id s) = Some i \<Longrightarrow> i \<le> current_lead_index s"
  shows "idx_le (warmup_sessions st) (warmup_sessions (snd (processNextLead e d st)))"
proof (cases "get_active st d")
  case None
  then show ?thesis by (simp add: processNextLead_def)
next
  case (Some p)
  then obtain r a where ga: "get_active st d = Some (r, a)" by (cases p) auto
  show ?thesis
  proof (cases "session a")
    case None
    with ga show ?thesis by (simp add: processNextLead_def)
  next
    case (Some s)
    have u: "idx_le (warmup_sessions st) rows'"
      if "sessionRepo_updateStatus (env_now e) (sess_id s) waiting_reply
           (no_extras\<lparr>x_last_message_id := Some m, x_current_lead_index := Some (current_lead_index s)\<rparr>)
           (warmup_sessions st) = (res, rows')" for m res rows'
      by (rule idx_le_updateStatus_Some_pair [OF that, where k = "current_lead_index s"])
         (simp_all add: cur [OF ga Some])
    from ga Some completeSession_idx_le [of st e d] show ?thesis
      by (auto simp: processNextLead_def Let_def intro: u split: sum.splits prod.splits)
  qed
qed

lemma skipToNextLead_idx_le:
  assumes cur: "\<And>r a s i. get_active st d = Some (r, a) \<Longrightarrow> session a = Some s \<Longrightarrow>
                  index_of (warmup_sessions st) (sess_id s) = Some i \<Longrightarrow> i \<le> current_lead_index s"
  shows "idx_le (warmup_sessions st) (warmup_sessions (snd (skipToNextLead e d st)))"
proof (cases "get_active st d")
  case None
  then show ?thesis by (simp add: skipToNextLead_def)
next
  case (Some p)
  then obtain r a where ga: "get_active st d = Some (r, a)" by (cases p) auto
  show ?thesis
  proof (cases "isPaused a \<or> session a = None")
    case True
    with ga show ?thesis by (auto simp: skipToNextLead_def Let_def)
  next
    case False
    then obtain s where s: "session a = Some s" and np: "\<not> isPaused a" by auto
    define upd where "upd = sessionRepo_updateStatus (env_now e) (sess_id s) sending
                  (no_extras\<lparr>x_current_lead_index := Some (current_lead_index s + 1)\<rparr>)
                  (warmup_sessions st)"
    define st3 where "st3 = modify_active r (\<lambda>a. a\<lparr>session := fst upd\<rparr>)
                   ((drop_domain_listener r (drop_lead_listener r st))\<lparr>warmup_sessions := snd upd\<rparr>)"
    have u: "idx_le (warmup_sessions st) (snd upd)"
      unfolding upd_def
      by (rule idx_le_updateStatus_Some [where k = "current_lead_index s + 1"])
         (use cur [OF ga s] in \<open>auto simp: le_Suc_eq\<close>)
    have r3: "warmup_sessions st3 = snd upd" by (simp add: st3_def)
    from skipToNextLead_unfold [OF ga np s, of e]
    have "warmup_sessions (snd (skipToNextLead e d st)) = warmup_sessions st3 \<or>
          warmup_sessions (snd (skipToNextLead e d st)) = warmup_sessions (snd (completeSession e d st3))"
      by (simp add: Let_def upd_def st3_def)
    with u r3 completeSession_idx_le [of st3 e d] show ?thesis
      by (metis idx_le_trans)
  qed
qed

lemma lead_onEmail_rows [simp]:
  "warmup_sessions (lead_onEmail e r d lead orig m st) = warmup_sessions st"
  by (simp add: lead_onEmail_def Let_def split: option.splits)

lemma sendLeadReply_rows [simp]:
  "warmup_sessions (snd (sendLeadReply e d lead m orig st)) = warmup_sessions st"
  by (simp add: sendLeadReply_def Let_def split: option.splits sum.splits prod.splits)

lemma run_action_no_callback: "\<not> is_callback a \<Longrightarrow> run_action e a st = st"
  by (cases a) (simp_all add: run_action_def is_callback_def)

lemma fold_run_action_none:
  "filter is_callback acts = [] \<Longrightarrow> fold (run_action e) acts st = st"
  by (induction acts) (auto simp: run_action_no_callback split: if_splits)

lemma fold_run_action_one:
  "filter is_callback acts = [a] \<Longrightarrow> fold (run_action e) acts st = run_action e a st"
proof (induction acts)
  case Nil
  then show ?case by simp
next
  case (Cons x xs)
  show ?case
  proof (cases "is_callback x")
    case True
    with Cons.prems have "x = a" "filter is_callback xs = []" by simp_all
    then show ?thesis by (simp add: fold_run_action_none)
  next
    case False
    with Cons show ?thesis by (simp add: run_action_no_callback)
  qed
qed

lemma safeReconnect_callbacks_le_1:
  "length (filter is_callback (snd (safeReconnect l))) \<le> 1"
  by (simp add: safeReconnect_def Let_def is_callback_def split: option.splits)

lemma handle_event_callbacks_le_1:
  "length (filter is_callback (snd (handle_event lev l))) \<le> 1"
proof (cases lev)
  case (OpenBoxDone err)
  then show ?thesis
    by (simp add: Let_def startPolling_def startWaitTimeout_def is_callback_def
        split: prod.splits)
next
  case Mail
  have "filter is_callback (concat (replicate n (fetchNewMessages l))) = []" for n
    by (induction n) (simp_all add: fetchNewMessages_def is_callback_def)
  with Mail show ?thesis by simp
next
  case (MessageEnd p)
  then show ?thesis by (simp add: is_callback_def split: option.splits)
next
  case ImapError
  with safeReconnect_callbacks_le_1 [of l] show ?thesis by simp
next
  case End
  with safeReconnect_callbacks_le_1 [of "l\<lparr>isConnected := False\<rparr>"] show ?thesis by (simp add: Let_def)
next
  case Close
  with safeReconnect_callbacks_le_1 [of "l\<lparr>isConnected := False\<rparr>"] show ?thesis by (simp add: Let_def)
next
  case (ReconnectTimer b)
  obtain l1 acts where sr: "safeReconnect l = (l1, acts)" by (cases "safeReconnect l")
  with safeReconnect_callbacks_le_1 [of l] ReconnectTimer show ?thesis
    by (simp add: connect_def is_callback_def)
next
  case WaitTimer
  then show ?thesis by (simp add: Let_def is_callback_def split: option.splits)
qed (simp_all add: fetchNewMessages_def is_callback_def)

lemma find_distinct_mem:
  "distinct (map sess_id rows) \<Longrightarrow> r \<in> set rows \<Longrightarrow> find (\<lambda>x. sess_id x = sess_id r) rows = Some r"
proof (induction rows)
  case Nil
  then show ?case by simp
next
  case (Cons a rows)
  show ?case
  proof (cases "a = r")
    case True
    then show ?thesis by simp
  next
    case False
    with Cons.prems have m: "r \<in> set rows" and d: "distinct (map sess_id rows)"
      and n: "sess_id a \<notin> sess_id ` set rows" by simp_all
    from m n have "sess_id a \<noteq> sess_id r" by (metis imageI)
    with Cons.IH [OF d m] show ?thesis by simp
  qed
qed

lemma index_of_mem:
  "distinct (map sess_id rows) \<Longrightarrow> r \<in> set rows \<Longrightarrow>
   index_of rows (sess_id r) = Some (current_lead_index r)"
  by (simp add: index_of_def find_distinct_mem)

lemma first_row_SomeD: "first_row xs = Some r \<Longrightarrow> r \<in> set xs"
  by (cases xs) (simp_all add: first_row_def)

lemma first_row_None: "first_row xs = None \<Longrightarrow> xs = []"
  by (cases xs) (simp_all add: first_row_def)

lemma set_insert_desc: "set (insert_desc r xs) = insert r (set xs)"
  by (induction xs) auto

lemma set_order_by: "set (order_by_created_at_desc xs) = set xs"
  unfolding order_by_created_at_desc_def
  by (induction xs) (simp_all add: set_insert_desc)

lemma findCompletedToday_SomeD:
  "sessionRepo_findCompletedToday day d rows = Some r \<Longrightarrow> r \<in> set rows"
  unfolding sessionRepo_findCompletedToday_def
  by (drule first_row_SomeD) simp

lemma findActiveToday_SomeD:
  "sessionRepo_findActiveToday day d rows = Some r \<Longrightarrow> r \<in> set rows"
  unfolding sessionRepo_findActiveToday_def
  by (drule first_row_SomeD) (simp add: set_order_by)

lemma no_active_no_completed_failed:
  assumes "sessionRepo_findActiveToday day d rows = None"
      and "sessionRepo_findCompletedToday day d rows = None"
      and "r \<in> set rows" and "domain_account_id r = d" and "session_date r = day"
  shows "sess_status r = failed"
proof -
  from assms(1) have "order_by_created_at_desc
       (filter (\<lambda>r. domain_account_id r = d \<and> session_date r = day
                    \<and> sess_status r \<noteq> completed \<and> sess_status r \<noteq> failed) rows) = []"
    unfolding sessionRepo_findActiveToday_def by (rule first_row_None)
  then have "set (order_by_created_at_desc
       (filter (\<lambda>r. domain_account_id r = d \<and> session_date r = day
                    \<and> sess_status r \<noteq> completed \<and> sess_status r \<noteq> failed) rows)) = {}"
    by simp
  then have "set (filter (\<lambda>r. domain_account_id r = d \<and> session_date r = day
                    \<and> sess_status r \<noteq> completed \<and> sess_status r \<noteq> failed) rows) = {}"
    by (simp only: set_order_by)
  with assms(3-5) have a: "sess_status r = completed \<or> sess_status r = failed" by auto
  from assms(2) have "filter (\<lambda>r. domain_account_id r = d \<and> session_date r = day
                             \<and> sess_status r = completed) rows = []"
    unfolding sessionRepo_findCompletedToday_def by (rule first_row_None)
  with assms(3-5) have "sess_status r \<noteq> completed" by (auto simp: filter_empty_conv)
  with a show ?thesis by simp
qed

lemma idx_leD: "idx_le rows rows' \<Longrightarrow> index_of rows sid = Some i \<Longrightarrow>
  \<exists>j. index_of rows' sid = Some j \<and> i \<le> j"
  by (simp add: idx_le_def)

lemma find_append_js:
  "find P (xs @ ys) = (case find P xs of None \<Rightarrow> find P ys | Some x \<Rightarrow> Some x)"
  by (induction xs) simp_all

lemma index_of_append:
  "index_of rows sid = Some i \<Longrightarrow> index_of (rows @ [r]) sid = Some i"
  by (auto simp: index_of_def find_append_js split: option.splits)

lemma index_of_reset:
  "index_of (map (\<lambda>r. if sess_id r = k then reset_row now_ts r else r) rows) sid =
     (if sid = k then map_option (\<lambda>_. 0) (index_of rows sid) else index_of rows sid)"
  unfolding index_of_def
  by (subst find_map_upd)
     (auto simp: reset_row_def option.map_comp comp_def)

lemma same_core_refl [simp]: "same_core st st"
  by (simp add: same_core_def)

lemma same_core_trans: "same_core a b \<Longrightarrow> same_core b c \<Longrightarrow> same_core a c"
  by (auto simp: same_core_def)

lemma same_core_registry_ok:
  assumes "same_core st st'" and "registry_ok st"
  shows "registry_ok st'"
proof -
  from assms(1) have r: "warmup_sessions st' = warmup_sessions st"
    and a: "activeSessions st' = activeSessions st"
    and s: "\<And>r. map_option session (active_objs st' r) = map_option session (active_objs st r)"
    and n: "next_ref st \<le> next_ref st'"
    by (simp_all add: same_core_def)
  have obj: "\<exists>a0. active_objs st r = Some a0 \<and> session a0 = Some sn"
    if "active_objs st' r = Some a'" "session a' = Some sn" for r a' sn
    using s [of r] that by (cases "active_objs st r") auto
  from assms(2) show ?thesis
    unfolding registry_ok_def r a
    using n obj by (auto, fastforce+)
qed

lemma same_core_modify:
  "(\<And>a. session (f a) = session a) \<Longrightarrow> same_core st (modify_active r f st)"
  by (auto simp: same_core_def modify_active_objs split: option.splits)
     (case_tac "active_objs st r", auto)

lemma same_core_upd [simp]:
  "same_core st (st\<lparr>mail_logs := x1\<rparr>)"
  "same_core st (st\<lparr>domain_accounts := x2\<rparr>)"
  "same_core st (st\<lparr>listener_objs := x3\<rparr>)"
  "same_core st (st\<lparr>pending_timers := x4\<rparr>)"
  "same_core st (disconnect_ref l st)"
  "same_core st (clear_timers ts st)"
  by (simp_all add: same_core_def)

lemma same_core_drop_lead [simp]: "same_core st (drop_lead_listener r st)"
  by (auto simp: same_core_def drop_lead_listener_objs)
     (case_tac "active_objs st r", auto)

lemma same_core_drop_domain [simp]: "same_core st (drop_domain_listener r st)"
  by (auto simp: same_core_def drop_domain_listener_objs)
     (case_tac "active_objs st r", auto)

lemma same_core_push_timer [simp]: "same_core st (push_timer r dl t st)"
  by (auto simp: same_core_def push_timer_objs)
     (case_tac "active_objs st r", auto)

lemma same_core_setupLead [simp]: "same_core st (setupLeadAutoReply e d lead m orig st)"
proof (cases "get_active st d")
  case None
  then show ?thesis by (simp add: setupLeadAutoReply_def)
next
  case (Some p)
  obtain r a where p: "p = (r, a)" by (cases p)
  let ?st1 = "drop_lead_listener r st"
  let ?st2 = "?st1\<lparr>listener_objs := (listener_objs ?st1)(next_ref ?st1 \<mapsto>
                 new_ImapListener (lead_imap_config lead (dom_email (domainAccount a)))
                   (LeadOnEmail r d lead m orig) (Some (LeadOnTimeout r d lead))),
               next_ref := next_ref ?st1 + 1\<rparr>"
  have 1: "same_core st ?st1" by simp
  have 2: "same_core ?st1 ?st2" by (simp add: same_core_def)
  have 3: "same_core ?st2 (modify_active r (\<lambda>a. a\<lparr>leadImapListener := Some (next_ref ?st1)\<rparr>) ?st2)"
    by (rule same_core_modify) simp
  have 4: "same_core st (modify_active r (\<lambda>a. a\<lparr>leadImapListener := Some (next_ref ?st1)\<rparr>) ?st2)"
    using 1 2 3 by (blast intro: same_core_trans)
  from Some p show ?thesis
    by (simp add: setupLeadAutoReply_def Let_def)
       (rule same_core_trans [OF 4], simp)
qed

lemma same_core_setupDomain [simp]: "same_core st (setupDomainReplyListener e d x y st)"
proof (cases "get_active st d")
  case None
  then show ?thesis by (simp add: setupDomainReplyListener_def)
next
  case (Some p)
  obtain r a where p: "p = (r, a)" by (cases p)
  let ?st1 = "drop_domain_listener r st"
  let ?st2 = "?st1\<lparr>listener_objs := (listener_objs ?st1)(next_ref ?st1 \<mapsto>
                 new_ImapListener (domain_imap_config (domainAccount a) x)
                   (DomainOnEmail r d x y) (Some (DomainOnTimeout r d x))),
               next_ref := next_ref ?st1 + 1\<rparr>"
  have 1: "same_core st ?st1" by simp
  have 2: "same_core ?st1 ?st2" by (simp add: same_core_def)
  have 3: "same_core ?st2 (modify_active r (\<lambda>a. a\<lparr>domainImapListener := Some (next_ref ?st1)\<rparr>) ?st2)"
    by (rule same_core_modify) simp
  have 4: "same_core st (modify_active r (\<lambda>a. a\<lparr>domainImapListener := Some (next_ref ?st1)\<rparr>) ?st2)"
    using 1 2 3 by (blast intro: same_core_trans)
  from Some p show ?thesis
    by (simp add: setupDomainReplyListener_def Let_def)
       (rule same_core_trans [OF 4], simp)
qed

lemma same_core_lead_onEmail: "same_core st (lead_onEmail e r d lead orig m st)"
proof -
  have "same_core st (push_timer r dl t (drop_lead_listener r (st\<lparr>mail_logs := x\<rparr>)))" for dl t x
    by (blast intro: same_core_trans same_core_upd(1) same_core_drop_lead same_core_push_timer)
  then show ?thesis
    by (simp add: lead_onEmail_def Let_def split: option.splits)
qed

lemma same_core_sendLeadReply: "same_core st (snd (sendLeadReply e d lead m orig st))"
proof -
  have "same_core st (setupDomainReplyListener e d x y (st\<lparr>mail_logs := z\<rparr>))" for x y z
    by (blast intro: same_core_trans same_core_upd(1) same_core_setupDomain)
  then show ?thesis
    by (simp add: sendLeadReply_def Let_def split: option.splits sum.splits prod.splits)
qed

lemma updateStatus_fst_find:
  "fst (sessionRepo_updateStatus now_ts i sts x rows) =
     find (\<lambda>r. sess_id r = i) (snd (sessionRepo_updateStatus now_ts i sts x rows))"
  by (simp add: sessionRepo_updateStatus_def update_where_id_def Let_def first_row_filter)

lemma find_updateStatus:
  "find (\<lambda>r. sess_id r = k) (snd (sessionRepo_updateStatus now_ts i sts x rows)) =
     (if k = i then map_option (\<lambda>r. (apply_extras sts x r)\<lparr>sess_updated_at := now_ts\<rparr>)
                      (find (\<lambda>r. sess_id r = k) rows)
      else find (\<lambda>r. sess_id r = k) rows)"
  unfolding updateStatus_rows
  by (subst find_map_upd) (auto simp: apply_extras_def)

lemma ids_updateStatus:
  "map sess_id (snd (sessionRepo_updateStatus now_ts i sts x rows)) = map sess_id rows"
  unfolding updateStatus_rows by (induction rows) (simp_all add: apply_extras_def)

lemma find_SomeD_id: "find (\<lambda>r. sess_id r = k) rows = Some s \<Longrightarrow> sess_id s = k \<and> s \<in> set rows"
  by (induction rows) (auto split: if_splits)

lemma registry_ok_actor_update:
  assumes ok: "registry_ok st" and reg: "activeSessions st d = Some r"
      and obj: "active_objs st r = Some a" and s: "session a = Some s"
  shows "registry_ok (modify_active r
            (\<lambda>a. a\<lparr>session := fst (sessionRepo_updateStatus now_ts (sess_id s) sts x (warmup_sessions st))\<rparr>)
            (st\<lparr>warmup_sessions := snd (sessionRepo_updateStatus now_ts (sess_id s) sts x (warmup_sessions st))\<rparr>))"
    (is "registry_ok ?st'")
proof -
  let ?rows = "warmup_sessions st"
  let ?upd = "sessionRepo_updateStatus now_ts (sess_id s) sts x ?rows"
  from ok have pk: "distinct (map sess_id ?rows)"
    and fr: "\<And>d r. activeSessions st d = Some r \<Longrightarrow> r < next_ref st"
    and inj: "\<And>d d' r. activeSessions st d = Some r \<Longrightarrow> activeSessions st d' = Some r \<Longrightarrow> d = d'"
    and sn: "\<And>d r a s. activeSessions st d = Some r \<Longrightarrow> active_objs st r = Some a \<Longrightarrow>
               session a = Some s \<Longrightarrow>
               find (\<lambda>x. sess_id x = sess_id s) ?rows = Some s \<and> domain_account_id s = d"
    unfolding registry_ok_def by blast+
  have rows': "warmup_sessions ?st' = snd ?upd" by simp
  have reg': "activeSessions ?st' = activeSessions st" by simp
  have nr': "next_ref ?st' = next_ref st" by simp
  have objs': "active_objs ?st' r' = (if r' = r then Some (a\<lparr>session := fst ?upd\<rparr>) else active_objs st r')" for r'
    using obj by (simp add: modify_active_objs)
  from sn [OF reg obj s] have fs: "find (\<lambda>x. sess_id x = sess_id s) ?rows = Some s"
    and ds: "domain_account_id s = d" by simp_all
  have "find (\<lambda>x. sess_id x = sess_id s') (snd ?upd) = Some s' \<and> domain_account_id s' = d'"
    if r': "activeSessions st d' = Some r'" and o': "active_objs ?st' r' = Some a'"
      and s': "session a' = Some s'" for d' r' a' s'
  proof (cases "r' = r")
    case True
    with r' reg inj have dd: "d' = d" by blast
    from True o' s' objs' [of r'] have f: "fst ?upd = Some s'" by auto
    then have f2: "find (\<lambda>r. sess_id r = sess_id s) (snd ?upd) = Some s'"
      by (simp add: updateStatus_fst_find [symmetric])
    from find_SomeD_id [OF this] have id: "sess_id s' = sess_id s" by simp
    from f2 fs have "s' = (apply_extras sts x s)\<lparr>sess_updated_at := now_ts\<rparr>"
      by (simp add: find_updateStatus)
    then have "domain_account_id s' = d" using ds by (simp add: apply_extras_def)
    with f2 id dd show ?thesis by simp
  next
    case False
    with o' objs' [of r'] have o: "active_objs st r' = Some a'" by simp
    from sn [OF r' o s'] have f': "find (\<lambda>x. sess_id x = sess_id s') ?rows = Some s'"
      and d': "domain_account_id s' = d'" by simp_all
    have "d' \<noteq> d" using False r' reg by auto
    with d' ds have "s' \<noteq> s" by auto
    with f' fs have "sess_id s' \<noteq> sess_id s" by auto
    with f' d' show ?thesis by (simp add: find_updateStatus)
  qed
  then show ?thesis
    unfolding registry_ok_def rows' reg' nr'
    using pk fr inj by (auto simp: ids_updateStatus)
qed

lemma registry_ok_foreign_update:
  assumes ok: "registry_ok st" and un: "get_active st d = None"
      and dom: "\<And>row. row \<in> set (warmup_sessions st) \<Longrightarrow> sess_id row = i \<Longrightarrow> domain_account_id row = d"
  shows "registry_ok (st\<lparr>warmup_sessions := snd (sessionRepo_updateStatus now_ts i sts x (warmup_sessions st))\<rparr>)"
proof -
  let ?rows = "warmup_sessions st"
  from ok have sn: "\<And>d r a s. activeSessions st d = Some r \<Longrightarrow> active_objs st r = Some a \<Longrightarrow>
               session a = Some s \<Longrightarrow>
               find (\<lambda>x. sess_id x = sess_id s) ?rows = Some s \<and> domain_account_id s = d"
    unfolding registry_ok_def by blast
  have "find (\<lambda>x. sess_id x = sess_id s') (snd (sessionRepo_updateStatus now_ts i sts x ?rows)) = Some s'
        \<and> domain_account_id s' = d'"
    if r': "activeSessions st d' = Some r'" and o': "active_objs st r' = Some a'"
      and s': "session a' = Some s'" for d' r' a' s'
  proof -
    from sn [OF r' o' s'] have f': "find (\<lambda>x. sess_id x = sess_id s') ?rows = Some s'"
      and d': "domain_account_id s' = d'" by simp_all
    from un r' o' have "d' \<noteq> d" by (auto simp: get_active_def)
    with dom [of s'] find_SomeD_id [OF f'] d' have "sess_id s' \<noteq> i" by auto
    with f' d' show ?thesis by (simp add: find_updateStatus)
  qed
  with ok show ?thesis
    unfolding registry_ok_def by (auto simp: ids_updateStatus)
qed

lemma registry_ok_unregister:
  assumes ok: "registry_ok st"
  shows "registry_ok (st\<lparr>activeSessions := (activeSessions st)(d := None)\<rparr>)"
  using ok unfolding registry_ok_def by (auto split: if_splits)

lemma registry_ok_unregister_update:
  assumes ok: "registry_ok st" and ga: "get_active st d = Some (r, a)" and s: "session a = Some s"
  shows "registry_ok (st\<lparr>warmup_sessions := snd (sessionRepo_updateStatus now_ts (sess_id s) sts x (warmup_sessions st)),
                         activeSessions := (activeSessions st)(d := None)\<rparr>)"
proof -
  let ?st1 = "st\<lparr>activeSessions := (activeSessions st)(d := None)\<rparr>"
  have ok1: "registry_ok ?st1" by (rule registry_ok_unregister [OF ok])
  have un: "get_active ?st1 d = None" by (simp add: get_active_def)
  from get_active_SomeD [OF ga] have reg: "activeSessions st d = Some r" and obj: "active_objs st r = Some a"
    by simp_all
  from ok reg obj s have fs: "find (\<lambda>x. sess_id x = sess_id s) (warmup_sessions st) = Some s"
    and ds: "domain_account_id s = d" unfolding registry_ok_def by blast+
  from ok have pk: "distinct (map sess_id (warmup_sessions st))" unfolding registry_ok_def by blast
  have dom: "domain_account_id row = d"
    if "row \<in> set (warmup_sessions ?st1)" "sess_id row = sess_id s" for row
  proof -
    from that have "row \<in> set (warmup_sessions st)" by simp
    from find_distinct_mem [OF pk this] that(2) fs have "row = s" by simp
    with ds show ?thesis by simp
  qed
  have sc: "same_core
      (?st1\<lparr>warmup_sessions := snd (sessionRepo_updateStatus now_ts (sess_id s) sts x (warmup_sessions ?st1))\<rparr>)
      (st\<lparr>warmup_sessions := snd (sessionRepo_updateStatus now_ts (sess_id s) sts x (warmup_sessions st)),
                         activeSessions := (activeSessions st)(d := None)\<rparr>)"
    unfolding same_core_def by simp
  from registry_ok_foreign_update [OF ok1 un dom, of "sess_id s" now_ts sts x]
  show ?thesis by (rule same_core_registry_ok [OF sc])
qed

lemma cleanupSession_core:
  assumes "get_active st d \<noteq> None"
  shows "same_core (st\<lparr>activeSessions := (activeSessions st)(d := None)\<rparr>) (cleanupSession d st)"
  using assms cleanupSession_unregisters [OF assms]
  by (simp add: same_core_def)

lemma completeSession_registry_ok:
  assumes ok: "registry_ok st"
  shows "registry_ok (snd (completeSession e d st))"
proof (cases "get_active st d")
  case None
  with ok show ?thesis by (simp add: completeSession_def)
next
  case (Some p)
  obtain r a where ga: "get_active st d = Some (r, a)" using Some by (cases p) auto
  show ?thesis
  proof (cases "session a")
    case None
    with ga ok show ?thesis by (simp add: completeSession_def)
  next
    case s: (Some s)
    let ?rows' = "snd (sessionRepo_updateStatus (env_now e) (sess_id s) completed
                      (no_extras\<lparr>x_completed_at := Some (Some (env_now e))\<rparr>) (warmup_sessions st))"
    let ?st4 = "st\<lparr>warmup_sessions := ?rows',
                   domain_accounts := domainAccountRepo_updateStatus d idle (domain_accounts st)\<rparr>"
    have g4: "get_active ?st4 d \<noteq> None" using get_active_SomeD [OF ga] by (simp add: get_active_def)
    have "registry_ok (st\<lparr>warmup_sessions := ?rows', activeSessions := (activeSessions st)(d := None)\<rparr>)"
      by (rule registry_ok_unregister_update [OF ok ga s])
    moreover have "same_core (st\<lparr>warmup_sessions := ?rows', activeSessions := (activeSessions st)(d := None)\<rparr>)
                     (?st4\<lparr>activeSessions := (activeSessions ?st4)(d := None)\<rparr>)"
      by (simp add: same_core_def)
    ultimately have "registry_ok (?st4\<lparr>activeSessions := (activeSessions ?st4)(d := None)\<rparr>)"
      by (rule same_core_registry_ok [rotated])
    with cleanupSession_core [OF g4] have "registry_ok (cleanupSession d ?st4)"
      by (rule same_core_registry_ok)
    with completeSession_registered [OF ga s, of e] show ?thesis by simp
  qed
qed

lemma failSession_registry_ok:
  assumes ok: "registry_ok st"
  shows "registry_ok (snd (failSession e d msg st))"
proof (cases "get_active st d")
  case None
  with ok show ?thesis by (simp add: failSession_def)
next
  case (Some p)
  obtain r a where ga: "get_active st d = Some (r, a)" using Some by (cases p) auto
  show ?thesis
  proof (cases "session a")
    case None
    with ga ok show ?thesis by (simp add: failSession_def)
  next
    case s: (Some s)
    let ?rows' = "snd (sessionRepo_updateStatus (env_now e) (sess_id s) failed
                      (no_extras\<lparr>x_error_message := Some (Some msg)\<rparr>) (warmup_sessions st))"
    let ?st4 = "st\<lparr>warmup_sessions := ?rows',
                   domain_accounts := domainAccountRepo_updateStatus d idle (domain_accounts st)\<rparr>"
    have g4: "get_active ?st4 d \<noteq> None" using get_active_SomeD [OF ga] by (simp add: get_active_def)
    have "registry_ok (st\<lparr>warmup_sessions := ?rows', activeSessions := (activeSessions st)(d := None)\<rparr>)"
      by (rule registry_ok_unregister_update [OF ok ga s])
    moreover have "same_core (st\<lparr>warmup_sessions := ?rows', activeSessions := (activeSessions st)(d := None)\<rparr>)
                     (?st4\<lparr>activeSessions := (activeSessions ?st4)(d := None)\<rparr>)"
      by (simp add: same_core_def)
    ultimately have "registry_ok (?st4\<lparr>activeSessions := (activeSessions ?st4)(d := None)\<rparr>)"
      by (rule same_core_registry_ok [rotated])
    with cleanupSession_core [OF g4] have "registry_ok (cleanupSession d ?st4)"
      by (rule same_core_registry_ok)
    with ga s show ?thesis by (simp add: failSession_def Let_def)
  qed
qed

lemma registry_ok_actor_update_after:
  assumes ok: "registry_ok st0" and sc: "same_core st0 st"
      and reg: "activeSessions st d = Some r" and obj: "active_objs st r = Some a"
      and s: "session a = Some s"
  shows "registry_ok (modify_active r
            (\<lambda>a. a\<lparr>session := fst (sessionRepo_updateStatus now_ts (sess_id s) sts x (warmup_sessions st))\<rparr>)
            (st\<lparr>warmup_sessions := snd (sessionRepo_updateStatus now_ts (sess_id s) sts x (warmup_sessions st))\<rparr>))"
  by (rule registry_ok_actor_update [OF same_core_registry_ok [OF sc ok] reg obj s])

lemma processNextLead_registry_ok:
  assumes ok: "registry_ok st"
  shows "registry_ok (snd (processNextLead e d st))"
proof (cases "get_active st d")
  case None
  with ok show ?thesis by (simp add: processNextLead_def)
next
  case (Some p)
  obtain r a where ga: "get_active st d = Some (r, a)" using Some by (cases p) auto
  from get_active_SomeD [OF ga] have reg: "activeSessions st d = Some r" and obj: "active_objs st r = Some a"
    by simp_all
  show ?thesis
  proof (cases "session a")
    case None
    with ga ok show ?thesis by (simp add: processNextLead_def)
  next
    case s: (Some s)
    have upd: "registry_ok (setupLeadAutoReply e d lead mid orig
        (modify_active r
            (\<lambda>a. a\<lparr>session := fst (sessionRepo_updateStatus (env_now e) (sess_id s) sts x (warmup_sessions st))\<rparr>)
            (st\<lparr>mail_logs := logs,
                 warmup_sessions := snd (sessionRepo_updateStatus (env_now e) (sess_id s) sts x (warmup_sessions st))\<rparr>)))"
      for lead mid orig sts x logs
    proof -
      let ?st1 = "st\<lparr>mail_logs := logs\<rparr>"
      have "registry_ok (modify_active r
            (\<lambda>a. a\<lparr>session := fst (sessionRepo_updateStatus (env_now e) (sess_id s) sts x (warmup_sessions ?st1))\<rparr>)
            (?st1\<lparr>warmup_sessions := snd (sessionRepo_updateStatus (env_now e) (sess_id s) sts x (warmup_sessions ?st1))\<rparr>))"
      proof -
        have sc1: "same_core st ?st1" by simp
        have reg1: "activeSessions ?st1 d = Some r" using reg by simp
        have obj1: "active_objs ?st1 r = Some a" using obj by simp
        show ?thesis by (rule registry_ok_actor_update_after [OF ok sc1 reg1 obj1 s])
      qed
      then show ?thesis
        by (intro same_core_registry_ok [OF same_core_setupLead]) simp
    qed
    have upd': "registry_ok (setupLeadAutoReply e d lead mid orig
        (modify_active r (\<lambda>a. a\<lparr>session := res\<rparr>) (st\<lparr>mail_logs := logs, warmup_sessions := rows'\<rparr>)))"
      if "sessionRepo_updateStatus (env_now e) (sess_id s) sts x (warmup_sessions st) = (res, rows')"
      for lead mid orig sts x logs res rows'
      using upd [of lead mid orig sts x logs] that by simp
    from ga s ok completeSession_registry_ok [OF ok, of e d] show ?thesis
      by (auto simp: processNextLead_def Let_def intro: upd' split: sum.splits prod.splits)
  qed
qed

lemma skipToNextLead_registry_ok:
  assumes ok: "registry_ok st"
  shows "registry_ok (snd (skipToNextLead e d st))"
proof (cases "get_active st d")
  case None
  with ok show ?thesis by (simp add: skipToNextLead_def)
next
  case (Some p)
  obtain r a where ga: "get_active st d = Some (r, a)" using Some by (cases p) auto
  from get_active_SomeD [OF ga] have reg: "activeSessions st d = Some r" and obj: "active_objs st r = Some a"
    by simp_all
  let ?st2 = "drop_domain_listener r (drop_lead_listener r st)"
  have sc2: "same_core st ?st2" by (blast intro: same_core_trans same_core_drop_lead same_core_drop_domain)
  show ?thesis
  proof (cases "isPaused a")
    case True
    with ga ok show ?thesis by (simp add: skipToNextLead_def)
  next
    case np: False
    show ?thesis
    proof (cases "session a")
      case None
      with ga np same_core_registry_ok [OF sc2 ok] show ?thesis
        by (simp add: skipToNextLead_def Let_def)
    next
      case s: (Some s)
      define upd where "upd = sessionRepo_updateStatus (env_now e) (sess_id s) sending
                  (no_extras\<lparr>x_current_lead_index := Some (current_lead_index s + 1)\<rparr>)
                  (warmup_sessions st)"
      define st3 where "st3 = modify_active r (\<lambda>a. a\<lparr>session := fst upd\<rparr>) (?st2\<lparr>warmup_sessions := snd upd\<rparr>)"
      have reg2: "activeSessions ?st2 d = Some r" using reg by simp
      have obj2: "\<exists>a2. active_objs ?st2 r = Some a2 \<and> session a2 = Some s"
        using obj s by (simp add: drop_domain_listener_objs drop_lead_listener_objs)
      then obtain a2 where o2: "active_objs ?st2 r = Some a2" and s2: "session a2 = Some s" by blast
      have "registry_ok (modify_active r
            (\<lambda>a. a\<lparr>session := fst (sessionRepo_updateStatus (env_now e) (sess_id s) sending
                  (no_extras\<lparr>x_current_lead_index := Some (current_lead_index s + 1)\<rparr>) (warmup_sessions ?st2))\<rparr>)
            (?st2\<lparr>warmup_sessions := snd (sessionRepo_updateStatus (env_now e) (sess_id s) sending
                  (no_extras\<lparr>x_current_lead_index := Some (current_lead_index s + 1)\<rparr>) (warmup_sessions ?st2))\<rparr>))"
        by (rule registry_ok_actor_update_after [OF ok sc2 reg2 o2 s2])
      then have ok3: "registry_ok st3" by (simp add: st3_def upd_def)
      from skipToNextLead_unfold [OF ga np s, of e]
      have "snd (skipToNextLead e d st) = snd (completeSession e d st3) \<or>
            snd (skipToNextLead e d st) = push_timer r 10000 (NextLeadTimer d) st3"
        by (simp add: Let_def upd_def st3_def)
      with completeSession_registry_ok [OF ok3, of e d]
        same_core_registry_ok [OF same_core_push_timer ok3, of r 10000 "NextLeadTimer d"]
      show ?thesis by auto
    qed
  qed
qed

lemma domain_onEmail_registry_ok:
  assumes ok: "registry_ok st" and reg: "activeSessions st d = Some r"
  shows "registry_ok (domain_onEmail e r d x m st)"
proof (cases "active_objs st r")
  case None
  with ok show ?thesis by (simp add: domain_onEmail_def)
next
  case (Some a)
  show ?thesis
  proof (cases "session a")
    case None
    with Some ok show ?thesis by (simp add: domain_onEmail_def Let_def)
  next
    case s: (Some s)
    define logs where "logs = mailLogRepo_create (sess_id s) (in_from m)
                           (dom_email (domainAccount a)) (in_subject m)
                           (Some (in_body m)) (Some (in_messageId m))
                           (or_null (in_inReplyTo m)) received
                           (Some (current_lead_index s)) (mail_logs st)"
    let ?st2 = "drop_domain_listener r (st\<lparr>mail_logs := logs\<rparr>)"
    have sc2: "same_core st ?st2" by (blast intro: same_core_trans same_core_upd(1) same_core_drop_domain)
    define upd where "upd = sessionRepo_updateStatus (env_now e) (sess_id s) sending
                  (no_extras\<lparr>x_current_lead_index := Some (current_lead_index s + 1)\<rparr>)
                  (warmup_sessions st)"
    define st3 where "st3 = modify_active r (\<lambda>a. a\<lparr>session := fst upd\<rparr>) (?st2\<lparr>warmup_sessions := snd upd\<rparr>)"
    have reg2: "activeSessions ?st2 d = Some r" using reg by simp
    have "\<exists>a2. active_objs ?st2 r = Some a2 \<and> session a2 = Some s"
      using Some s by (simp add: drop_domain_listener_objs)
    then obtain a2 where o2: "active_objs ?st2 r = Some a2" and s2: "session a2 = Some s" by blast
    have "registry_ok (modify_active r
            (\<lambda>a. a\<lparr>session := fst (sessionRepo_updateStatus (env_now e) (sess_id s) sending
                  (no_extras\<lparr>x_current_lead_index := Some (current_lead_index s + 1)\<rparr>) (warmup_sessions ?st2))\<rparr>)
            (?st2\<lparr>warmup_sessions := snd (sessionRepo_updateStatus (env_now e) (sess_id s) sending
                  (no_extras\<lparr>x_current_lead_index := Some (current_lead_index s + 1)\<rparr>) (warmup_sessions ?st2))\<rparr>))"
      by (rule registry_ok_actor_update_after [OF ok sc2 reg2 o2 s2])
    then have ok3: "registry_ok st3" by (simp add: st3_def upd_def)
    have "domain_onEmail e r d x m st = st \<or>
          domain_onEmail e r d x m st = snd (completeSession e d st3) \<or>
          domain_onEmail e r d x m st = push_timer r (randomDelay e) (NextLeadTimer d) st3"
      using Some s
      by (simp add: domain_onEmail_def Let_def st3_def upd_def logs_def split: prod.splits)
    with ok completeSession_registry_ok [OF ok3, of e d]
      same_core_registry_ok [OF same_core_push_timer ok3, of r "randomDelay e" "NextLeadTimer d"]
    show ?thesis by auto
  qed
qed

lemma pauseWarmup_registry_ok:
  assumes ok: "registry_ok st"
  shows "registry_ok (snd (pauseWarmup e d st))"
proof (cases "get_active st d")
  case None
  with ok show ?thesis by (simp add: pauseWarmup_def)
next
  case (Some p)
  obtain r a where ga: "get_active st d = Some (r, a)" using Some by (cases p) auto
  from get_active_SomeD [OF ga] have reg: "activeSessions st d = Some r" and obj: "active_objs st r = Some a"
    by simp_all
  define st4 where "st4 = modify_active r (\<lambda>a. a\<lparr>timers := []\<rparr>) (clear_timers (timers a)
      (drop_domain_listener r (drop_lead_listener r (modify_active r (\<lambda>a. a\<lparr>isPaused := True\<rparr>) st))))"
  have sc4: "same_core st st4"
    unfolding st4_def
    by (intro same_core_trans [OF _ same_core_modify] same_core_trans [OF _ same_core_upd(6)]
        same_core_trans [OF _ same_core_drop_domain] same_core_trans [OF _ same_core_drop_lead]
        same_core_modify) simp_all
  have ok4: "registry_ok st4" by (rule same_core_registry_ok [OF sc4 ok])
  show ?thesis
  proof (cases "session a")
    case None
    with ga ok4 show ?thesis by (simp add: pauseWarmup_def Let_def st4_def)
  next
    case s: (Some s)
    have g4: "\<exists>a4. get_active st4 d = Some (r, a4) \<and> session a4 = Some s"
      using reg obj s
      by (simp add: st4_def get_active_def modify_active_objs drop_domain_listener_objs
          drop_lead_listener_objs)
    then obtain a4 where ga4: "get_active st4 d = Some (r, a4)" and s4: "session a4 = Some s" by blast
    let ?rows' = "snd (sessionRepo_updateStatus (env_now e) (sess_id s) paused no_extras (warmup_sessions st4))"
    have "registry_ok (st4\<lparr>warmup_sessions := ?rows', activeSessions := (activeSessions st4)(d := None)\<rparr>)"
      by (rule registry_ok_unregister_update [OF ok4 ga4 s4])
    moreover have "same_core (st4\<lparr>warmup_sessions := ?rows', activeSessions := (activeSessions st4)(d := None)\<rparr>)
        (snd (pauseWarmup e d st))"
      using ga s unfolding same_core_def
      by (simp add: pauseWarmup_def Let_def st4_def split: prod.splits)
    ultimately show ?thesis by (rule same_core_registry_ok [rotated])
  qed
qed

lemma distinct_same_id:
  assumes pk: "distinct (map sess_id rows)" and a: "a \<in> set rows" and b: "b \<in> set rows"
      and eq: "sess_id a = sess_id b"
  shows "a = b"
proof -
  have fa: "find (\<lambda>x. sess_id x = sess_id a) rows = Some a" by (rule find_distinct_mem [OF pk a])
  have fb: "find (\<lambda>x. sess_id x = sess_id b) rows = Some b" by (rule find_distinct_mem [OF pk b])
  from fa have "find (\<lambda>x. sess_id x = sess_id b) rows = Some a" by (simp only: eq)
  with fb show ?thesis by simp
qed

lemma stopWarmup_registry_ok:
  assumes ok: "registry_ok st"
  shows "registry_ok (snd (stopWarmup e d st))"
proof (cases "get_active st d")
  case (Some p)
  with failSession_registry_ok [OF ok, of e d "''Manually stopped by user''"] show ?thesis
    by (simp add: stopWarmup_def)
next
  case None
  show ?thesis
  proof (cases "sessionRepo_findActiveToday (env_today e) d (warmup_sessions st)")
    case n: None
    with None ok show ?thesis by (simp add: stopWarmup_def)
  next
    case (Some s)
    from ok have pk: "distinct (map sess_id (warmup_sessions st))" unfolding registry_ok_def by blast
    have m: "s \<in> set (warmup_sessions st)" by (rule findActiveToday_SomeD [OF Some])
    from Some have "s \<in> set (order_by_created_at_desc
       (filter (\<lambda>r. domain_account_id r = d \<and> session_date r = env_today e
                    \<and> sess_status r \<noteq> completed \<and> sess_status r \<noteq> failed) (warmup_sessions st)))"
      unfolding sessionRepo_findActiveToday_def by (rule first_row_SomeD)
    then have "s \<in> set (filter (\<lambda>r. domain_account_id r = d \<and> session_date r = env_today e
                    \<and> sess_status r \<noteq> completed \<and> sess_status r \<noteq> failed) (warmup_sessions st))"
      by (simp only: set_order_by)
    then have ds: "domain_account_id s = d" by simp
    have dom: "domain_account_id row = d"
      if "row \<in> set (warmup_sessions st)" "sess_id row = sess_id s" for row
      using distinct_same_id [OF pk that(1) m that(2)] ds by simp
    have "registry_ok (st\<lparr>warmup_sessions := snd (sessionRepo_updateStatus (env_now e) (sess_id s) failed
               (no_extras\<lparr>x_error_message := Some (Some ''Manually stopped by user'')\<rparr>) (warmup_sessions st))\<rparr>)"
      by (rule registry_ok_foreign_update [OF ok None dom])
    moreover have "same_core (st\<lparr>warmup_sessions := snd (sessionRepo_updateStatus (env_now e) (sess_id s) failed
               (no_extras\<lparr>x_error_message := Some (Some ''Manually stopped by user'')\<rparr>) (warmup_sessions st))\<rparr>)
        (snd (stopWarmup e d st))"
      using None Some unfolding same_core_def by (simp add: stopWarmup_def Let_def)
    ultimately show ?thesis by (rule same_core_registry_ok [rotated])
  qed
qed

lemma get_active_unregistered: "activeSessions st d = None \<Longrightarrow> get_active st d = None"
  by (simp add: get_active_def)

lemma registry_okD:
  assumes "registry_ok st"
  shows "distinct (map sess_id (warmup_sessions st))"
    and "\<And>d r. activeSessions st d = Some r \<Longrightarrow> r < next_ref st"
    and "\<And>d d' r. activeSessions st d = Some r \<Longrightarrow> activeSessions st d' = Some r \<Longrightarrow> d = d'"
    and "\<And>d r a s. activeSessions st d = Some r \<Longrightarrow> active_objs st r = Some a \<Longrightarrow>
               session a = Some s \<Longrightarrow>
               find (\<lambda>x. sess_id x = sess_id s) (warmup_sessions st) = Some s \<and> domain_account_id s = d"
  using assms unfolding registry_ok_def by blast+

lemma registry_okI:
  assumes "distinct (map sess_id (warmup_sessions st))"
    and "\<And>d r. activeSessions st d = Some r \<Longrightarrow> r < next_ref st"
    and "\<And>d d' r. activeSessions st d = Some r \<Longrightarrow> activeSessions st d' = Some r \<Longrightarrow> d = d'"
    and "\<And>d r a s. activeSessions st d = Some r \<Longrightarrow> active_objs st r = Some a \<Longrightarrow>
               session a = Some s \<Longrightarrow>
               find (\<lambda>x. sess_id x = sess_id s) (warmup_sessions st) = Some s \<and> domain_account_id s = d"
  shows "registry_ok st"
  unfolding registry_ok_def using assms by blast

lemma registry_ok_register:
  assumes ok: "registry_ok st" and un: "activeSessions st d = None"
      and sn: "\<And>s. session a = Some s \<Longrightarrow>
                 find (\<lambda>x. sess_id x = sess_id s) (warmup_sessions st) = Some s \<and> domain_account_id s = d"
  shows "registry_ok (st\<lparr>active_objs := (active_objs st)(next_ref st \<mapsto> a),
                         activeSessions := (activeSessions st)(d \<mapsto> next_ref st),
                         next_ref := next_ref st + 1\<rparr>)"
    (is "registry_ok ?st'")
proof (rule registry_okI)
  show "distinct (map sess_id (warmup_sessions ?st'))" using registry_okD(1) [OF ok] by simp
next
  fix d' r assume "activeSessions ?st' d' = Some r"
  then have "r = next_ref st \<or> activeSessions st d' = Some r" by (simp split: if_splits)
  with registry_okD(2) [OF ok, of d' r] show "r < next_ref ?st'" by auto
next
  fix d1 d2 r assume a: "activeSessions ?st' d1 = Some r" "activeSessions ?st' d2 = Some r"
  show "d1 = d2"
  proof (cases "r = next_ref st")
    case True
    have "d' = d" if "activeSessions ?st' d' = Some r" for d'
    proof (rule ccontr)
      assume "d' \<noteq> d"
      with that have "activeSessions st d' = Some r" by simp
      from registry_okD(2) [OF ok this] True show False by simp
    qed
    with a show ?thesis by blast
  next
    case False
    with a have "activeSessions st d1 = Some r" "activeSessions st d2 = Some r"
      by (simp_all split: if_splits)
    then show ?thesis by (rule registry_okD(3) [OF ok])
  qed
next
  fix d' r a' s
  assume r: "activeSessions ?st' d' = Some r" and o: "active_objs ?st' r = Some a'"
    and s: "session a' = Some s"
  show "find (\<lambda>x. sess_id x = sess_id s) (warmup_sessions ?st') = Some s \<and> domain_account_id s = d'"
  proof (cases "d' = d")
    case True
    with r have "r = next_ref st" by simp
    with o have "a' = a" by simp
    with s sn True show ?thesis by simp
  next
    case False
    with r have r0: "activeSessions st d' = Some r" by simp
    from registry_okD(2) [OF ok this] have "r \<noteq> next_ref st" by simp
    with o have "active_objs st r = Some a'" by simp
    from registry_okD(4) [OF ok r0 this s] show ?thesis by simp
  qed
qed

lemma launch_registry_ok:
  assumes ok: "registry_ok st" and un: "activeSessions st d = None"
      and sn: "\<And>s. sess = Some s \<Longrightarrow>
                 find (\<lambda>x. sess_id x = sess_id s) (warmup_sessions st) = Some s \<and> domain_account_id s = d"
  shows "registry_ok (snd (launch e d da ls sess st))"
proof -
  define st1 where "st1 = st\<lparr>domain_accounts := domainAccountRepo_updateStatus d running (domain_accounts st)\<rparr>"
  define act where "act = \<lparr> session = sess, domainAccount = da, leads = ls,
                            domainImapListener = None, leadImapListener = None,
                            isPaused = False, timers = [] \<rparr>"
  define st2 where "st2 = st1\<lparr>active_objs := (active_objs st1)(next_ref st1 \<mapsto> act),
                     activeSessions := (activeSessions st1)(d \<mapsto> next_ref st1),
                     next_ref := next_ref st1 + 1\<rparr>"
  have ok1: "registry_ok st1"
    unfolding st1_def by (rule same_core_registry_ok [OF same_core_upd(2) ok])
  have un1: "activeSessions st1 d = None" using un by (simp add: st1_def)
  have sn1: "find (\<lambda>x. sess_id x = sess_id s) (warmup_sessions st1) = Some s \<and> domain_account_id s = d"
    if "session act = Some s" for s
    using that sn [of s] by (simp add: act_def st1_def)
  have ok2: "registry_ok st2"
    unfolding st2_def by (rule registry_ok_register [OF ok1 un1 sn1])
  obtain er st3 where pr: "processNextLead e d st2 = (er, st3)" by (cases "processNextLead e d st2")
  from processNextLead_registry_ok [OF ok2, of e d] pr have ok3: "registry_ok st3" by simp
  have l: "launch e d da ls sess st =
      (case er of None \<Rightarrow> (Inr sess, st3) | Some (Error msg) \<Rightarrow> (Inr sess, snd (failSession e d msg st3)))"
    using pr by (simp add: launch_def Let_def st2_def st1_def act_def)
  show ?thesis
  proof (cases er)
    case None
    with l ok3 show ?thesis by simp
  next
    case (Some err)
    then obtain msg where "err = Error msg" by (cases err) auto
    with Some l failSession_registry_ok [OF ok3, of e d msg] show ?thesis by simp
  qed
qed

lemma registry_ok_rows:
  assumes ok: "registry_ok st" and pk': "distinct (map sess_id rows')"
      and keep: "\<And>d r a s. activeSessions st d = Some r \<Longrightarrow> active_objs st r = Some a \<Longrightarrow>
                   session a = Some s \<Longrightarrow>
                   find (\<lambda>x. sess_id x = sess_id s) rows' =
                     find (\<lambda>x. sess_id x = sess_id s) (warmup_sessions st)"
  shows "registry_ok (st\<lparr>warmup_sessions := rows'\<rparr>)"
proof (rule registry_okI)
  show "distinct (map sess_id (warmup_sessions (st\<lparr>warmup_sessions := rows'\<rparr>)))" using pk' by simp
next
  fix d r assume "activeSessions (st\<lparr>warmup_sessions := rows'\<rparr>) d = Some r"
  with registry_okD(2) [OF ok, of d r] show "r < next_ref (st\<lparr>warmup_sessions := rows'\<rparr>)" by simp
next
  fix d1 d2 r
  assume "activeSessions (st\<lparr>warmup_sessions := rows'\<rparr>) d1 = Some r"
         "activeSessions (st\<lparr>warmup_sessions := rows'\<rparr>) d2 = Some r"
  with registry_okD(3) [OF ok, of d1 r d2] show "d1 = d2" by simp
next
  fix d r a s
  assume "activeSessions (st\<lparr>warmup_sessions := rows'\<rparr>) d = Some r"
    and "active_objs (st\<lparr>warmup_sessions := rows'\<rparr>) r = Some a" and s: "session a = Some s"
  then have r: "activeSessions st d = Some r" and o: "active_objs st r = Some a" by simp_all
  from registry_okD(4) [OF ok r o s] keep [OF r o s]
  show "find (\<lambda>x. sess_id x = sess_id s) (warmup_sessions (st\<lparr>warmup_sessions := rows'\<rparr>)) = Some s
        \<and> domain_account_id s = d" by simp
qed

lemma create_registry_ok:
  assumes ok: "registry_ok st" and un: "activeSessions st d = None"
      and c: "sessionRepo_create now_ts day new_id doms d (warmup_sessions st) = Inr (s', rows')"
  shows "registry_ok (st\<lparr>warmup_sessions := rows'\<rparr>) \<and>
         find (\<lambda>x. sess_id x = sess_id s') rows' = Some s' \<and> domain_account_id s' = d"
proof (cases "filter (\<lambda>r. domain_account_id r = d \<and> session_date r = day) (warmup_sessions st)")
  case Nil
  let ?rows = "warmup_sessions st"
  from registry_okD(1) [OF ok] have pk: "distinct (map sess_id ?rows)" .
  from Nil c have new: "new_id \<notin> sess_id ` set ?rows"
    and r: "s' = inserted_row now_ts day new_id d" and rows': "rows' = ?rows @ [s']"
    by (auto simp: sessionRepo_create_def Let_def split: if_splits)
  have id: "sess_id s' = new_id" and dm: "domain_account_id s' = d" by (simp_all add: r inserted_row_def)
  have pk': "distinct (map sess_id rows')" using pk new id by (simp add: rows')
  from new have fn: "find (\<lambda>x. sess_id x = new_id) ?rows = None" by (auto simp: find_None_iff)
  have f': "find (\<lambda>x. sess_id x = sess_id s') rows' = Some s'"
    using fn id by (simp add: rows' find_append_js)
  have "registry_ok (st\<lparr>warmup_sessions := rows'\<rparr>)"
  proof (rule registry_ok_rows [OF ok pk'])
    fix d0 r0 a0 s0
    assume "activeSessions st d0 = Some r0" "active_objs st r0 = Some a0" "session a0 = Some s0"
    from registry_okD(4) [OF ok this]
    have "find (\<lambda>x. sess_id x = sess_id s0) ?rows = Some s0" by simp
    then show "find (\<lambda>x. sess_id x = sess_id s0) rows' = find (\<lambda>x. sess_id x = sess_id s0) ?rows"
      by (simp add: rows' find_append_js)
  qed
  with f' dm show ?thesis by simp
next
  case (Cons ex rest)
  let ?rows = "warmup_sessions st"
  from registry_okD(1) [OF ok] have pk: "distinct (map sess_id ?rows)" .
  from first_filter_mem [OF Cons]
  have m: "ex \<in> set ?rows" "domain_account_id ex = d" "session_date ex = day" by auto
  from sessionRepo_create_existing [OF pk Cons, of now_ts new_id doms] c
  have r: "s' = reset_row now_ts ex"
    and rows': "rows' = map (\<lambda>r. if sess_id r = sess_id ex then reset_row now_ts r else r) ?rows"
    by simp_all
  have id: "sess_id s' = sess_id ex" and dm: "domain_account_id s' = d"
    using m by (simp_all add: r reset_row_def)
  have pk': "distinct (map sess_id rows')" unfolding rows' by (rule distinct_ids_after_reset [OF pk])
  have fm: "find (\<lambda>x. sess_id x = k) rows' =
       (if k = sess_id ex then map_option (reset_row now_ts) (find (\<lambda>x. sess_id x = k) ?rows)
        else find (\<lambda>x. sess_id x = k) ?rows)" for k
    unfolding rows' by (rule find_map_upd) (simp add: reset_row_def)
  have f': "find (\<lambda>x. sess_id x = sess_id s') rows' = Some s'"
    using find_distinct_mem [OF pk m(1)] unfolding id by (simp add: fm r)
  have "registry_ok (st\<lparr>warmup_sessions := rows'\<rparr>)"
  proof (rule registry_ok_rows [OF ok pk'])
    fix d0 r0 a0 s0
    assume a: "activeSessions st d0 = Some r0" "active_objs st r0 = Some a0" "session a0 = Some s0"
    from registry_okD(4) [OF ok this]
    have f0: "find (\<lambda>x. sess_id x = sess_id s0) ?rows = Some s0" and d0: "domain_account_id s0 = d0"
      by simp_all
    from a(1) un have "d0 \<noteq> d" by auto
    have "sess_id s0 \<noteq> sess_id ex"
    proof
      assume e: "sess_id s0 = sess_id ex"
      from find_SomeD_id [OF f0] have "s0 \<in> set ?rows" by simp
      from distinct_same_id [OF pk this m(1) e] d0 m(2) \<open>d0 \<noteq> d\<close> show False by simp
    qed
    then show "find (\<lambda>x. sess_id x = sess_id s0) rows' = find (\<lambda>x. sess_id x = sess_id s0) ?rows"
      by (simp add: fm)
  qed
  with f' dm show ?thesis by simp
qed

lemma foreign_update_result:
  assumes pk: "distinct (map sess_id rows)" and m: "s0 \<in> set rows" and dm: "domain_account_id s0 = d"
      and f: "fst (sessionRepo_updateStatus now_ts (sess_id s0) sts x rows) = Some s'"
  shows "find (\<lambda>r. sess_id r = sess_id s') (snd (sessionRepo_updateStatus now_ts (sess_id s0) sts x rows)) = Some s'
         \<and> domain_account_id s' = d"
proof -
  from f have f2: "find (\<lambda>r. sess_id r = sess_id s0)
                     (snd (sessionRepo_updateStatus now_ts (sess_id s0) sts x rows)) = Some s'"
    by (simp add: updateStatus_fst_find [symmetric])
  from find_SomeD_id [OF this] have id: "sess_id s' = sess_id s0" by simp
  from f2 find_distinct_mem [OF pk m]
  have "s' = (apply_extras sts x s0)\<lparr>sess_updated_at := now_ts\<rparr>"
    by (simp add: find_updateStatus)
  then have "domain_account_id s' = d" using dm by (simp add: apply_extras_def)
  with f2 id show ?thesis by simp
qed

lemma startWarmup_registry_ok:
  assumes ok: "registry_ok st"
  shows "registry_ok (snd (startWarmup e d st))"
proof -
  let ?rows = "warmup_sessions st"
  from registry_okD(1) [OF ok] have pk: "distinct (map sess_id ?rows)" .
  show ?thesis
  proof (cases "activeSessions st d \<noteq> None \<or> domainAccountRepo_findById d (domain_accounts st) = None
                \<or> lead_accounts st = []")
    case True
    then have "snd (startWarmup e d st) = st"
      by (auto simp: startWarmup_def split: option.splits)
    with ok show ?thesis by simp
  next
    case False
    then obtain da where reg: "activeSessions st d = None"
      and da: "domainAccountRepo_findById d (domain_accounts st) = Some da"
      and ls: "lead_accounts st \<noteq> []" by auto
    from reg have un: "get_active st d = None" by (rule get_active_unregistered)
    have upd_ok: "registry_ok (st\<lparr>warmup_sessions := snd (sessionRepo_updateStatus now_ts (sess_id s0) sts x ?rows)\<rparr>)"
      if "s0 \<in> set ?rows" "domain_account_id s0 = d" for s0 now_ts sts x
    proof (rule registry_ok_foreign_update [OF ok un])
      fix row assume "row \<in> set ?rows" "sess_id row = sess_id s0"
      from distinct_same_id [OF pk this(1) that(1) this(2)] that(2)
      show "domain_account_id row = d" by simp
    qed
    show ?thesis
    proof (cases "sessionRepo_findCompletedToday (env_today e) d ?rows")
      case (Some ct)
      from findCompletedToday_SomeD [OF Some] have m: "ct \<in> set ?rows" .
      from Some have "ct \<in> set (filter (\<lambda>r. domain_account_id r = d \<and> session_date r = env_today e
                             \<and> sess_status r = completed) ?rows)"
        unfolding sessionRepo_findCompletedToday_def by (rule first_row_SomeD)
      then have dm: "domain_account_id ct = d" by simp
      show ?thesis
      proof (cases "current_lead_index ct < length (lead_accounts st)")
        case False
        with reg da ls Some have "snd (startWarmup e d st) = st"
          by (simp add: startWarmup_def Let_def)
        with ok show ?thesis by simp
      next
        case True
        define upd where "upd = sessionRepo_updateStatus (env_now e) (sess_id ct) sending
                                (no_extras\<lparr>x_current_lead_index := Some (current_lead_index ct),
                                           x_completed_at := Some None,
                                           x_error_message := Some None\<rparr>) ?rows"
        have sw: "startWarmup e d st =
            launch e d da (lead_accounts st) (fst upd) (st\<lparr>warmup_sessions := snd upd\<rparr>)"
          using reg da ls Some True
          by (simp add: startWarmup_def Let_def upd_def split: prod.splits)
        have ok1: "registry_ok (st\<lparr>warmup_sessions := snd upd\<rparr>)"
          unfolding upd_def by (rule upd_ok [OF m dm])
        have "registry_ok (snd (launch e d da (lead_accounts st) (fst upd) (st\<lparr>warmup_sessions := snd upd\<rparr>)))"
        proof (rule launch_registry_ok [OF ok1])
          show "activeSessions (st\<lparr>warmup_sessions := snd upd\<rparr>) d = None" using reg by simp
        next
          fix s assume "fst upd = Some s"
          from foreign_update_result [OF pk m dm this [unfolded upd_def]]
          show "find (\<lambda>x. sess_id x = sess_id s) (warmup_sessions (st\<lparr>warmup_sessions := snd upd\<rparr>)) = Some s
                \<and> domain_account_id s = d"
            by (simp add: upd_def)
        qed
        with sw show ?thesis by simp
      qed
    next
      case None
      show ?thesis
      proof (cases "sessionRepo_findActiveToday (env_today e) d ?rows")
        case (Some s0)
        from findActiveToday_SomeD [OF Some] have m: "s0 \<in> set ?rows" .
        from Some have "s0 \<in> set (order_by_created_at_desc
           (filter (\<lambda>r. domain_account_id r = d \<and> session_date r = env_today e
                        \<and> sess_status r \<noteq> completed \<and> sess_status r \<noteq> failed) ?rows))"
          unfolding sessionRepo_findActiveToday_def by (rule first_row_SomeD)
        then have "s0 \<in> set (filter (\<lambda>r. domain_account_id r = d \<and> session_date r = env_today e
                        \<and> sess_status r \<noteq> completed \<and> sess_status r \<noteq> failed) ?rows)"
          by (simp only: set_order_by)
        then have dm: "domain_account_id s0 = d" by simp
        show ?thesis
        proof (cases "sess_status s0 = paused")
          case False
          with reg da ls None Some have "snd (startWarmup e d st) = st"
            by (simp add: startWarmup_def Let_def)
          with ok show ?thesis by simp
        next
          case True
          define upd where "upd = sessionRepo_updateStatus (env_now e) (sess_id s0) sending
                                    no_extras ?rows"
          have ok1: "registry_ok (st\<lparr>warmup_sessions := snd upd\<rparr>)"
            unfolding upd_def by (rule upd_ok [OF m dm])
          show ?thesis
          proof (cases "fst upd")
            case n: None
            have pr: "sessionRepo_updateStatus (env_now e) (sess_id s0) sending no_extras ?rows =
                        (None, snd upd)"
              using n by (simp add: upd_def prod_eq_iff)
            have "snd (startWarmup e d st) = st\<lparr>warmup_sessions := snd upd\<rparr>"
              using reg da ls None Some True
              by (simp add: startWarmup_def Let_def pr)
            with ok1 show ?thesis by simp
          next
            case s': (Some s')
            have pr: "sessionRepo_updateStatus (env_now e) (sess_id s0) sending no_extras ?rows =
                        (Some s', snd upd)"
              using s' by (simp add: upd_def prod_eq_iff)
            have sw: "startWarmup e d st =
                launch e d da (lead_accounts st) (Some s') (st\<lparr>warmup_sessions := snd upd\<rparr>)"
              using reg da ls None Some True
              by (simp add: startWarmup_def Let_def pr)
            have "registry_ok (snd (launch e d da (lead_accounts st) (Some s') (st\<lparr>warmup_sessions := snd upd\<rparr>)))"
            proof (rule launch_registry_ok [OF ok1])
              show "activeSessions (st\<lparr>warmup_sessions := snd upd\<rparr>) d = None" using reg by simp
            next
              fix s assume "Some s' = Some s"
              with s' have "fst upd = Some s" by simp
              from foreign_update_result [OF pk m dm this [unfolded upd_def]]
              show "find (\<lambda>x. sess_id x = sess_id s) (warmup_sessions (st\<lparr>warmup_sessions := snd upd\<rparr>)) = Some s
                    \<and> domain_account_id s = d"
                by (simp add: upd_def)
            qed
            with sw show ?thesis by simp
          qed
        qed
      next
        case na: None
        show ?thesis
        proof (cases "sessionRepo_create (env_now e) (env_today e) (env_row_id e)
                        (map dom_id (domain_accounts st)) d ?rows")
          case (Inl err)
          with reg da ls None na have "snd (startWarmup e d st) = st"
            by (simp add: startWarmup_def Let_def)
          with ok show ?thesis by simp
        next
          case (Inr p)
          obtain s' rows' where p: "p = (s', rows')" by (cases p)
          have sw: "startWarmup e d st =
              launch e d da (lead_accounts st) (Some s') (st\<lparr>warmup_sessions := rows'\<rparr>)"
            using reg da ls None na Inr p by (simp add: startWarmup_def Let_def)
          from create_registry_ok [OF ok reg Inr [unfolded p]]
          have ok1: "registry_ok (st\<lparr>warmup_sessions := rows'\<rparr>)"
            and f': "find (\<lambda>x. sess_id x = sess_id s') rows' = Some s'"
            and dm: "domain_account_id s' = d" by simp_all
          have "registry_ok (snd (launch e d da (lead_accounts st) (Some s') (st\<lparr>warmup_sessions := rows'\<rparr>)))"
          proof (rule launch_registry_ok [OF ok1])
            show "activeSessions (st\<lparr>warmup_sessions := rows'\<rparr>) d = None" using reg by simp
          next
            fix s assume "Some s' = Some s"
            with f' dm
            show "find (\<lambda>x. sess_id x = sess_id s) (warmup_sessions (st\<lparr>warmup_sessions := rows'\<rparr>)) = Some s
                  \<and> domain_account_id s = d"
              by simp
          qed
          with sw show ?thesis by simp
        qed
      qed
    qed
  qed
qed

lemma run_task_registry_ok:
  assumes ok: "registry_ok st"
  shows "registry_ok (snd (run_task e task st))"
proof (cases task)
  case (ReplyTimer d lead m orig)
  have "same_core st (snd (run_task e task st))"
    using ReplyTimer same_core_sendLeadReply [of st e d lead m orig]
    by (simp add: run_task_def split: option.splits prod.splits)
  then show ?thesis using ok by (rule same_core_registry_ok)
next
  case (NextLeadTimer d)
  obtain er st1 where pr: "processNextLead e d st = (er, st1)" by (cases "processNextLead e d st")
  from processNextLead_registry_ok [OF ok, of e d] pr have ok1: "registry_ok st1" by simp
  show ?thesis
  proof (cases er)
    case None
    with ok1 pr NextLeadTimer show ?thesis by (simp add: run_task_def)
  next
    case (Some err)
    then obtain msg where "err = Error msg" by (cases err) auto
    with Some pr NextLeadTimer failSession_registry_ok [OF ok1, of e d msg] show ?thesis
      by (simp add: run_task_def)
  qed
qed

lemma listener_onTimeout_registry_ok:
  assumes ok: "registry_ok st"
  shows "registry_ok (snd (listener_onTimeout e r d st))"
  using ok skipToNextLead_registry_ok [OF ok, of e d]
  by (simp add: listener_onTimeout_def split: option.splits)

lemma run_action_registry_ok:
  assumes ok: "registry_ok st"
      and reg: "\<And>r d x y m. a = CallOnEmail (DomainOnEmail r d x y) m \<Longrightarrow> activeSessions st d = Some r"
  shows "registry_ok (run_action e a st)"
proof (cases a)
  case (CallOnEmail c m)
  show ?thesis
  proof (cases c)
    case (LeadOnEmail r d lead mid orig)
    with CallOnEmail same_core_registry_ok [OF same_core_lead_onEmail ok, of e r d lead orig m]
    show ?thesis by (simp add: run_action_def)
  next
    case (DomainOnEmail r d x y)
    with CallOnEmail reg have "activeSessions st d = Some r" by simp
    from domain_onEmail_registry_ok [OF ok this, of e x m] CallOnEmail DomainOnEmail
    show ?thesis by (simp add: run_action_def)
  qed
next
  case (CallOnTimeout c)
  with listener_onTimeout_registry_ok [OF ok] show ?thesis
    by (cases c) (simp_all add: run_action_def)
qed (simp_all add: run_action_def ok)

lemma safeReconnect_no_email:
  "CallOnEmail c m \<notin> set (snd (safeReconnect l))"
  by (simp add: safeReconnect_def Let_def split: option.splits)

lemma handle_event_CallOnEmail:
  assumes "CallOnEmail c m \<in> set (snd (handle_event lev l))"
  shows "lev = MessageEnd (Some m) \<and> c = onEmail l"
proof (cases lev)
  case (OpenBoxDone err)
  with assms show ?thesis
    by (simp add: Let_def startPolling_def startWaitTimeout_def split: prod.splits if_splits)
next
  case Mail
  with assms show ?thesis by (simp add: fetchNewMessages_def)
next
  case (MessageEnd p)
  with assms show ?thesis by (simp split: option.splits)
next
  case ImapError
  with assms safeReconnect_no_email [of c m l] show ?thesis by (simp split: if_splits)
next
  case End
  with assms safeReconnect_no_email [of c m "l\<lparr>isConnected := False\<rparr>"] show ?thesis
    by (simp add: Let_def split: if_splits)
next
  case Close
  with assms safeReconnect_no_email [of c m "l\<lparr>isConnected := False\<rparr>"] show ?thesis
    by (simp add: Let_def split: if_splits)
next
  case (ReconnectTimer b)
  obtain l1 acts where sr: "safeReconnect l = (l1, acts)" by (cases "safeReconnect l")
  with safeReconnect_no_email [of c m l] ReconnectTimer assms show ?thesis
    by (simp add: connect_def split: if_splits)
next
  case WaitTimer
  with assms show ?thesis by (simp add: Let_def split: option.splits if_splits)
next
  case Ready
  with assms show ?thesis by simp
next
  case InitialCheckTimer
  with assms show ?thesis by (simp add: fetchNewMessages_def split: if_splits)
next
  case PollTimer
  with assms show ?thesis by (simp add: fetchNewMessages_def split: if_splits)
qed

lemma step_registry_ok:
  assumes ok: "registry_ok st" and ns: "\<not> stale_callback st ev"
  shows "registry_ok (step e ev st)"
proof (cases ev)
  case (StartWarmup d)
  with startWarmup_registry_ok [OF ok] show ?thesis by (simp add: step_def)
next
  case (ResumeWarmup d)
  with startWarmup_registry_ok [OF ok] show ?thesis by (simp add: step_def resumeWarmup_def)
next
  case (PauseWarmup d)
  with pauseWarmup_registry_ok [OF ok] show ?thesis by (simp add: step_def)
next
  case (StopWarmup d)
  with stopWarmup_registry_ok [OF ok] show ?thesis by (simp add: step_def)
next
  case (TimerFires t)
  show ?thesis
  proof (cases "pending_timers st t")
    case None
    with TimerFires ok show ?thesis by (simp add: step_def)
  next
    case (Some p)
    obtain dl task where p: "p = (dl, task)" by (cases p)
    let ?st1 = "st\<lparr>pending_timers := (pending_timers st)(t := None)\<rparr>"
    have "registry_ok ?st1" by (rule same_core_registry_ok [OF same_core_upd(4) ok])
    from run_task_registry_ok [OF this, of e task] TimerFires Some p show ?thesis
      by (simp add: step_def)
  qed
next
  case (ListenerEvent l lev)
  show ?thesis
  proof (cases "listener_objs st l")
    case None
    with ListenerEvent ok show ?thesis by (simp add: step_def)
  next
    case (Some obj)
    obtain obj' acts where h: "handle_event lev obj = (obj', acts)" by (cases "handle_event lev obj")
    let ?st1 = "st\<lparr>listener_objs := (listener_objs st)(l \<mapsto> obj')\<rparr>"
    have ok1: "registry_ok ?st1" by (rule same_core_registry_ok [OF same_core_upd(3) ok])
    have st: "step e ev st = fold (run_action e) acts ?st1"
      using ListenerEvent Some h by (simp add: step_def)
    from handle_event_callbacks_le_1 [of lev obj] h
    have "length (filter is_callback acts) \<le> 1" by simp
    then consider "filter is_callback acts = []" | a where "filter is_callback acts = [a]"
      by (cases "filter is_callback acts") (auto simp: le_Suc_eq)
    then show ?thesis
    proof cases
      case 1
      with ok1 show ?thesis by (simp add: st fold_run_action_none)
    next
      case 2
      then have "a \<in> set (filter is_callback acts)" by simp
      then have mem: "a \<in> set (snd (handle_event lev obj))" using h by simp
      have "registry_ok (run_action e a ?st1)"
      proof (rule run_action_registry_ok [OF ok1])
        fix r d x y m assume a: "a = CallOnEmail (DomainOnEmail r d x y) m"
        from handle_event_CallOnEmail [OF mem [unfolded a]]
        have lev: "lev = MessageEnd (Some m)" and c: "onEmail obj = DomainOnEmail r d x y" by simp_all
        from ns ListenerEvent Some lev c have "activeSessions st d = Some r"
          by (simp add: stale_callback_def)
        then show "activeSessions ?st1 d = Some r" by simp
      qed
      with 2 show ?thesis by (simp add: st fold_run_action_one)
    qed
  qed
qed

lemma registry_ok_index:
  assumes ok: "registry_ok st" and ga: "get_active st d = Some (r, a)" and s: "session a = Some s"
  shows "index_of (warmup_sessions st) (sess_id s) = Some (current_lead_index s)"
proof -
  from get_active_SomeD [OF ga] have "activeSessions st d = Some r" "active_objs st r = Some a"
    by simp_all
  from registry_okD(4) [OF ok this s] show ?thesis by (simp add: index_of_def)
qed

lemma completeSession_index_eq:
  "index_of (warmup_sessions (snd (completeSession e d st))) sid = index_of (warmup_sessions st) sid"
  using completeSession_rows [of e d st]
  by (auto simp: index_of_updateStatus no_extras_def)

lemma failSession_index_eq:
  "index_of (warmup_sessions (snd (failSession e d msg st))) sid = index_of (warmup_sessions st) sid"
  by (auto simp: failSession_def Let_def index_of_updateStatus no_extras_def
      split: option.splits prod.splits)

lemma index_of_updateStatus_same:
  assumes "index_of rows j = Some k" and "x_current_lead_index x = Some k"
  shows "index_of (snd (sessionRepo_updateStatus now_ts j sts x rows)) sid = index_of rows sid"
  using assms by (simp add: index_of_updateStatus)

lemma processNextLead_index_eq:
  assumes ok: "registry_ok st"
  shows "index_of (warmup_sessions (snd (processNextLead e d st))) sid = index_of (warmup_sessions st) sid"
proof (cases "get_active st d")
  case None
  then show ?thesis by (simp add: processNextLead_def)
next
  case (Some p)
  then obtain r a where ga: "get_active st d = Some (r, a)" by (cases p) auto
  show ?thesis
  proof (cases "session a")
    case None
    with ga show ?thesis by (simp add: processNextLead_def)
  next
    case (Some s)
    have u: "index_of rows' sid = index_of (warmup_sessions st) sid"
      if "sessionRepo_updateStatus (env_now e) (sess_id s) waiting_reply
           (no_extras\<lparr>x_last_message_id := Some m, x_current_lead_index := Some (current_lead_index s)\<rparr>)
           (warmup_sessions st) = (res, rows')" for m res rows'
      using index_of_updateStatus_same [OF registry_ok_index [OF ok ga Some],
          of "no_extras\<lparr>x_last_message_id := Some m, x_current_lead_index := Some (current_lead_index s)\<rparr>"
             "env_now e" waiting_reply sid] that
      by simp
    from ga Some completeSession_index_eq [of e d st sid] show ?thesis
      by (auto simp: processNextLead_def Let_def u split: sum.splits prod.splits)
  qed
qed

lemma status_of_mem:
  "distinct (map sess_id rows) \<Longrightarrow> r \<in> set rows \<Longrightarrow>
   status_of rows (sess_id r) = Some (sess_status r)"
  by (simp add: status_of_def find_distinct_mem)

lemma index_of_SomeD: "index_of rows sid = Some i \<Longrightarrow> sid \<in> sess_id ` set rows"
proof -
  assume "index_of rows sid = Some i"
  then obtain r where "find (\<lambda>x. sess_id x = sid) rows = Some r" by (auto simp: index_of_def)
  from find_SomeD_id [OF this] show ?thesis by auto
qed

lemma launch_result:
  assumes ok: "registry_ok st" and un: "activeSessions st d = None"
      and sn: "\<And>s. sess = Some s \<Longrightarrow>
                 find (\<lambda>x. sess_id x = sess_id s) (warmup_sessions st) = Some s \<and> domain_account_id s = d"
  shows "fst (launch e d da ls sess st) = Inr sess \<and>
         index_of (warmup_sessions (snd (launch e d da ls sess st))) sid = index_of (warmup_sessions st) sid"
proof -
  define st1 where "st1 = st\<lparr>domain_accounts := domainAccountRepo_updateStatus d running (domain_accounts st)\<rparr>"
  define act where "act = \<lparr> session = sess, domainAccount = da, leads = ls,
                            domainImapListener = None, leadImapListener = None,
                            isPaused = False, timers = [] \<rparr>"
  define st2 where "st2 = st1\<lparr>active_objs := (active_objs st1)(next_ref st1 \<mapsto> act),
                     activeSessions := (activeSessions st1)(d \<mapsto> next_ref st1),
                     next_ref := next_ref st1 + 1\<rparr>"
  have ok1: "registry_ok st1"
    unfolding st1_def by (rule same_core_registry_ok [OF same_core_upd(2) ok])
  have un1: "activeSessions st1 d = None" using un by (simp add: st1_def)
  have sn1: "find (\<lambda>x. sess_id x = sess_id s) (warmup_sessions st1) = Some s \<and> domain_account_id s = d"
    if "session act = Some s" for s
    using that sn [of s] by (simp add: act_def st1_def)
  have ok2: "registry_ok st2"
    unfolding st2_def by (rule registry_ok_register [OF ok1 un1 sn1])
  have r2: "warmup_sessions st2 = warmup_sessions st" by (simp add: st2_def st1_def)
  obtain er st3 where pr: "processNextLead e d st2 = (er, st3)" by (cases "processNextLead e d st2")
  from processNextLead_index_eq [OF ok2, of e d sid] pr r2
  have i3: "index_of (warmup_sessions st3) sid = index_of (warmup_sessions st) sid" by simp
  have l: "launch e d da ls sess st =
      (case er of None \<Rightarrow> (Inr sess, st3) | Some (Error msg) \<Rightarrow> (Inr sess, snd (failSession e d msg st3)))"
    using pr by (simp add: launch_def Let_def st2_def st1_def act_def)
  show ?thesis
  proof (cases er)
    case None
    with l i3 show ?thesis by simp
  next
    case (Some err)
    then obtain msg where "err = Error msg" by (cases err) auto
    with Some l i3 failSession_index_eq [of e d msg st3 sid] show ?thesis by simp
  qed
qed

lemma startWarmup_index_exact:
  assumes ok: "registry_ok st"
      and i: "index_of (warmup_sessions st) sid = Some i"
  shows "index_of (warmup_sessions (snd (startWarmup e d st))) sid =
           Some (if reuses_failed_row e d st sid then 0 else i)"
proof -
  let ?rows = "warmup_sessions st"
  from registry_okD(1) [OF ok] have pk: "distinct (map sess_id ?rows)" .
  have rejected: "startWarmup e d st = (Inl err, st) \<Longrightarrow> ?thesis" for err
    using i by (simp add: reuses_failed_row_def)
  show ?thesis
  proof (cases "activeSessions st d \<noteq> None \<or> domainAccountRepo_findById d (domain_accounts st) = None
                \<or> lead_accounts st = []")
    case True
    then have "\<exists>err. startWarmup e d st = (Inl err, st)"
      by (auto simp: startWarmup_def split: option.splits)
    with rejected show ?thesis by blast
  next
    case False
    then obtain da where reg: "activeSessions st d = None"
      and da: "domainAccountRepo_findById d (domain_accounts st) = Some da"
      and ls: "lead_accounts st \<noteq> []" by auto
    from reg have un: "get_active st d = None" by (rule get_active_unregistered)
    have upd_ok: "registry_ok (st\<lparr>warmup_sessions := snd (sessionRepo_updateStatus now_ts (sess_id s0) sts x ?rows)\<rparr>)"
      if "s0 \<in> set ?rows" "domain_account_id s0 = d" for s0 now_ts sts x
    proof (rule registry_ok_foreign_update [OF ok un])
      fix row assume "row \<in> set ?rows" "sess_id row = sess_id s0"
      from distinct_same_id [OF pk this(1) that(1) this(2)] that(2)
      show "domain_account_id row = d" by simp
    qed
    have via_update: ?thesis
      if m: "s0 \<in> set ?rows" and dm: "domain_account_id s0 = d" and nf: "sess_status s0 \<noteq> failed"
        and sw: "startWarmup e d st = launch e d da (lead_accounts st) (fst upd) (st\<lparr>warmup_sessions := snd upd\<rparr>)"
        and upd: "upd = sessionRepo_updateStatus (env_now e) (sess_id s0) sts x ?rows"
        and same: "index_of (snd upd) sid = index_of ?rows sid"
      for s0 upd sts x
    proof -
      have ok1: "registry_ok (st\<lparr>warmup_sessions := snd upd\<rparr>)"
        unfolding upd by (rule upd_ok [OF m dm])
      have l: "fst (launch e d da (lead_accounts st) (fst upd) (st\<lparr>warmup_sessions := snd upd\<rparr>)) = Inr (fst upd) \<and>
         index_of (warmup_sessions (snd (launch e d da (lead_accounts st) (fst upd) (st\<lparr>warmup_sessions := snd upd\<rparr>)))) sid
           = index_of (warmup_sessions (st\<lparr>warmup_sessions := snd upd\<rparr>)) sid"
      proof (rule launch_result [OF ok1])
        show "activeSessions (st\<lparr>warmup_sessions := snd upd\<rparr>) d = None" using reg by simp
      next
        fix s assume "fst upd = Some s"
        from foreign_update_result [OF pk m dm this [unfolded upd]]
        show "find (\<lambda>x. sess_id x = sess_id s) (warmup_sessions (st\<lparr>warmup_sessions := snd upd\<rparr>)) = Some s
              \<and> domain_account_id s = d"
          by (simp add: upd)
      qed
      have nr: "\<not> reuses_failed_row e d st sid"
      proof
        assume "reuses_failed_row e d st sid"
        with sw l obtain row where f: "fst upd = Some row" and id: "sess_id row = sid"
          and st: "status_of ?rows sid = Some failed"
          by (auto simp: reuses_failed_row_def split: option.splits)
        from foreign_update_result [OF pk m dm f [unfolded upd]]
        have "find (\<lambda>r. sess_id r = sess_id row) (snd upd) = Some row" by (simp add: upd)
        moreover from f have "find (\<lambda>r. sess_id r = sess_id s0) (snd upd) = Some row"
          by (simp add: upd updateStatus_fst_find [symmetric])
        then have "sess_id row = sess_id s0" using find_SomeD_id by fast
        ultimately have "sid = sess_id s0" using id by simp
        with status_of_mem [OF pk m] st nf show False by simp
      qed
      from l sw same i nr show ?thesis by simp
    qed
    show ?thesis
    proof (cases "sessionRepo_findCompletedToday (env_today e) d ?rows")
      case (Some ct)
      from findCompletedToday_SomeD [OF Some] have m: "ct \<in> set ?rows" .
      from Some have "ct \<in> set (filter (\<lambda>r. domain_account_id r = d \<and> session_date r = env_today e
                             \<and> sess_status r = completed) ?rows)"
        unfolding sessionRepo_findCompletedToday_def by (rule first_row_SomeD)
      then have dm: "domain_account_id ct = d" and stc: "sess_status ct = completed" by simp_all
      show ?thesis
      proof (cases "current_lead_index ct < length (lead_accounts st)")
        case False
        with reg da ls Some have "\<exists>err. startWarmup e d st = (Inl err, st)"
          by (simp add: startWarmup_def Let_def)
        with rejected show ?thesis by blast
      next
        case True
        define upd where "upd = sessionRepo_updateStatus (env_now e) (sess_id ct) sending
                                (no_extras\<lparr>x_current_lead_index := Some (current_lead_index ct),
                                           x_completed_at := Some None,
                                           x_error_message := Some None\<rparr>) ?rows"
        have sw: "startWarmup e d st =
            launch e d da (lead_accounts st) (fst upd) (st\<lparr>warmup_sessions := snd upd\<rparr>)"
          using reg da ls Some True
          by (simp add: startWarmup_def Let_def upd_def split: prod.splits)
        have same: "index_of (snd upd) sid = index_of ?rows sid"
          unfolding upd_def
          by (rule index_of_updateStatus_same [OF index_of_mem [OF pk m]]) simp
        from stc have nf: "sess_status ct \<noteq> failed" by simp
        show ?thesis by (rule via_update [OF m dm nf sw upd_def same])
      qed
    next
      case None
      show ?thesis
      proof (cases "sessionRepo_findActiveToday (env_today e) d ?rows")
        case (Some s0)
        from findActiveToday_SomeD [OF Some] have m: "s0 \<in> set ?rows" .
        from Some have "s0 \<in> set (order_by_created_at_desc
           (filter (\<lambda>r. domain_account_id r = d \<and> session_date r = env_today e
                        \<and> sess_status r \<noteq> completed \<and> sess_status r \<noteq> failed) ?rows))"
          unfolding sessionRepo_findActiveToday_def by (rule first_row_SomeD)
        then have "s0 \<in> set (filter (\<lambda>r. domain_account_id r = d \<and> session_date r = env_today e
                        \<and> sess_status r \<noteq> completed \<and> sess_status r \<noteq> failed) ?rows)"
          by (simp only: set_order_by)
        then have dm: "domain_account_id s0 = d" and nf: "sess_status s0 \<noteq> failed" by simp_all
        show ?thesis
        proof (cases "sess_status s0 = paused")
          case False
          with reg da ls None Some have "\<exists>err. startWarmup e d st = (Inl err, st)"
            by (simp add: startWarmup_def Let_def)
          with rejected show ?thesis by blast
        next
          case True
          define upd where "upd = sessionRepo_updateStatus (env_now e) (sess_id s0) sending
                                    no_extras ?rows"
          have same: "index_of (snd upd) sid = index_of ?rows sid"
            unfolding upd_def by (simp add: index_of_updateStatus no_extras_def)
          show ?thesis
          proof (cases "fst upd")
            case n: None
            have pr: "sessionRepo_updateStatus (env_now e) (sess_id s0) sending no_extras ?rows =
                        (None, snd upd)"
              using n by (simp add: upd_def prod_eq_iff)
            have "startWarmup e d st = (Inl TypeError, st\<lparr>warmup_sessions := snd upd\<rparr>)"
              using reg da ls None Some True
              by (simp add: startWarmup_def Let_def pr)
            with same i show ?thesis by (simp add: reuses_failed_row_def)
          next
            case s': (Some s')
            have pr: "sessionRepo_updateStatus (env_now e) (sess_id s0) sending no_extras ?rows =
                        (Some s', snd upd)"
              using s' by (simp add: upd_def prod_eq_iff)
            have sw: "startWarmup e d st =
                launch e d da (lead_accounts st) (fst upd) (st\<lparr>warmup_sessions := snd upd\<rparr>)"
              using reg da ls None Some True s'
              by (simp add: startWarmup_def Let_def pr)
            show ?thesis by (rule via_update [OF m dm nf sw upd_def same])
          qed
        qed
      next
        case na: None
        show ?thesis
        proof (cases "sessionRepo_create (env_now e) (env_today e) (env_row_id e)
                        (map dom_id (domain_accounts st)) d ?rows")
          case (Inl err)
          with reg da ls None na have "startWarmup e d st = (Inl err, st)"
            by (simp add: startWarmup_def Let_def)
          then show ?thesis by (rule rejected)
        next
          case (Inr p)
          obtain s' rows' where p: "p = (s', rows')" by (cases p)
          note c = Inr [unfolded p]
          have sw: "startWarmup e d st =
              launch e d da (lead_accounts st) (Some s') (st\<lparr>warmup_sessions := rows'\<rparr>)"
            using reg da ls None na Inr p by (simp add: startWarmup_def Let_def)
          from create_registry_ok [OF ok reg c]
          have ok1: "registry_ok (st\<lparr>warmup_sessions := rows'\<rparr>)"
            and f': "find (\<lambda>x. sess_id x = sess_id s') rows' = Some s'"
            and dm: "domain_account_id s' = d" by simp_all
          have l: "fst (launch e d da (lead_accounts st) (Some s') (st\<lparr>warmup_sessions := rows'\<rparr>)) = Inr (Some s') \<and>
             index_of (warmup_sessions (snd (launch e d da (lead_accounts st) (Some s') (st\<lparr>warmup_sessions := rows'\<rparr>)))) sid
               = index_of (warmup_sessions (st\<lparr>warmup_sessions := rows'\<rparr>)) sid"
          proof (rule launch_result [OF ok1])
            show "activeSessions (st\<lparr>warmup_sessions := rows'\<rparr>) d = None" using reg by simp
          next
            fix s assume "Some s' = Some s"
            with f' dm
            show "find (\<lambda>x. sess_id x = sess_id s) (warmup_sessions (st\<lparr>warmup_sessions := rows'\<rparr>)) = Some s
                  \<and> domain_account_id s = d"
              by simp
          qed
          from l sw have res: "fst (startWarmup e d st) = Inr (Some s')"
            and ix: "index_of (warmup_sessions (snd (startWarmup e d st))) sid = index_of rows' sid"
            by simp_all
          have reu: "reuses_failed_row e d st sid =
                       (sess_id s' = sid \<and> status_of ?rows sid = Some failed)"
            using res by (simp add: reuses_failed_row_def)
          show ?thesis
          proof (cases "filter (\<lambda>r. domain_account_id r = d \<and> session_date r = env_today e) ?rows")
            case Nil
            with c have new: "env_row_id e \<notin> sess_id ` set ?rows"
              and r: "s' = inserted_row (env_now e) (env_today e) (env_row_id e) d"
              and rows': "rows' = ?rows @ [s']"
              by (auto simp: sessionRepo_create_def Let_def split: if_splits)
            from index_of_SomeD [OF i] new r have "sess_id s' \<noteq> sid"
              by (auto simp: inserted_row_def)
            with reu ix index_of_append [OF i, of s'] rows' show ?thesis by simp
          next
            case (Cons ex rest)
            from first_filter_mem [OF Cons]
            have m: "ex \<in> set ?rows" "domain_account_id ex = d" "session_date ex = env_today e"
              by auto
            from sessionRepo_create_existing [OF pk Cons, of "env_now e" "env_row_id e" "map dom_id (domain_accounts st)"] c
            have r: "s' = reset_row (env_now e) ex"
              and rows': "rows' = map (\<lambda>r. if sess_id r = sess_id ex then reset_row (env_now e) r else r) ?rows"
              by simp_all
            have id: "sess_id s' = sess_id ex" by (simp add: r reset_row_def)
            from no_active_no_completed_failed [OF na None m]
            have "sess_status ex = failed" .
            with status_of_mem [OF pk m(1)] have sf: "status_of ?rows (sess_id ex) = Some failed" by simp
            show ?thesis
            proof (cases "sid = sess_id ex")
              case True
              with i have "index_of rows' sid = Some 0" by (simp add: rows' index_of_reset)
              with reu ix id sf True show ?thesis by simp
            next
              case False
              with i have "index_of rows' sid = Some i" by (simp add: rows' index_of_reset)
              with reu ix id False show ?thesis by auto
            qed
          qed
        qed
      qed
    qed
  qed
qed

lemma registry_ok_not_behind:
  assumes ok: "registry_ok st" and ga: "get_active st d = Some (r, a)" and s: "session a = Some s"
      and i: "index_of (warmup_sessions st) (sess_id s) = Some i"
  shows "i \<le> current_lead_index s"
  using registry_ok_index [OF ok ga s] i by simp

lemma domain_onEmail_idx_le:
  assumes cur: "\<And>a s i. active_objs st r = Some a \<Longrightarrow> session a = Some s \<Longrightarrow>
                  index_of (warmup_sessions st) (sess_id s) = Some i \<Longrightarrow> i \<le> current_lead_index s"
  shows "idx_le (warmup_sessions st) (warmup_sessions (domain_onEmail e r d x m st))"
proof (cases "active_objs st r")
  case None
  then show ?thesis by (simp add: domain_onEmail_def)
next
  case (Some a)
  show ?thesis
  proof (cases "session a")
    case None
    with Some show ?thesis by (simp add: domain_onEmail_def Let_def)
  next
    case s: (Some s)
    define st2 where "st2 = drop_domain_listener r (st\<lparr>mail_logs :=
                         mailLogRepo_create (sess_id s) (in_from m)
                           (dom_email (domainAccount a)) (in_subject m)
                           (Some (in_body m)) (Some (in_messageId m))
                           (or_null (in_inReplyTo m)) received
                           (Some (current_lead_index s)) (mail_logs st)\<rparr>)"
    define upd where "upd = sessionRepo_updateStatus (env_now e) (sess_id s) sending
                  (no_extras\<lparr>x_current_lead_index := Some (current_lead_index s + 1)\<rparr>)
                  (warmup_sessions st)"
    define st3 where "st3 = modify_active r (\<lambda>a. a\<lparr>session := fst upd\<rparr>) (st2\<lparr>warmup_sessions := snd upd\<rparr>)"
    have u: "idx_le (warmup_sessions st) (snd upd)"
      unfolding upd_def
      by (rule idx_le_updateStatus_Some [where k = "current_lead_index s + 1"])
         (use cur [OF Some s] in \<open>auto simp: le_Suc_eq\<close>)
    have r3: "warmup_sessions st3 = snd upd" by (simp add: st3_def)
    have "domain_onEmail e r d x m st = st \<or>
          domain_onEmail e r d x m st = snd (completeSession e d st3) \<or>
          domain_onEmail e r d x m st = push_timer r (randomDelay e) (NextLeadTimer d) st3"
      using Some s
      by (simp add: domain_onEmail_def Let_def st3_def st2_def upd_def split: prod.splits)
    with u r3 completeSession_idx_le [of st3 e d] show ?thesis
      by (auto intro: idx_le_trans)
  qed
qed

lemma run_task_idx_le:
  assumes ok: "registry_ok st"
  shows "idx_le (warmup_sessions st) (warmup_sessions (snd (run_task e task st)))"
proof (cases task)
  case (ReplyTimer d lead m orig)
  then show ?thesis by (simp add: run_task_def split: option.splits prod.splits)
next
  case (NextLeadTimer d)
  have p: "idx_le (warmup_sessions st) (warmup_sessions (snd (processNextLead e d st)))"
    by (rule processNextLead_idx_le) (rule registry_ok_not_behind [OF ok])
  obtain er st1 where pr: "processNextLead e d st = (er, st1)" by (cases "processNextLead e d st")
  show ?thesis
  proof (cases er)
    case None
    with p pr NextLeadTimer show ?thesis by (simp add: run_task_def)
  next
    case (Some err)
    then obtain msg where "err = Error msg" by (cases err) auto
    with Some p pr NextLeadTimer failSession_idx_le [of st1 e d msg] show ?thesis
      by (auto simp: run_task_def intro: idx_le_trans)
  qed
qed

lemma run_action_idx_le:
  assumes ok: "registry_ok st"
      and reg: "\<And>r d x y m. a = CallOnEmail (DomainOnEmail r d x y) m \<Longrightarrow> activeSessions st d = Some r"
  shows "idx_le (warmup_sessions st) (warmup_sessions (run_action e a st))"
proof (cases a)
  case (CallOnEmail c m)
  show ?thesis
  proof (cases c)
    case (LeadOnEmail r d lead mid orig)
    with CallOnEmail show ?thesis by (simp add: run_action_def)
  next
    case (DomainOnEmail r d x y)
    with CallOnEmail reg have r: "activeSessions st d = Some r" by simp
    have "idx_le (warmup_sessions st) (warmup_sessions (domain_onEmail e r d x m st))"
    proof (rule domain_onEmail_idx_le)
      fix a' s i
      assume o: "active_objs st r = Some a'" and s: "session a' = Some s"
        and i: "index_of (warmup_sessions st) (sess_id s) = Some i"
      from r o have "get_active st d = Some (r, a')" by (simp add: get_active_def)
      from registry_ok_not_behind [OF ok this s i] show "i \<le> current_lead_index s" .
    qed
    with CallOnEmail DomainOnEmail show ?thesis by (simp add: run_action_def)
  qed
next
  case (CallOnTimeout c)
  have sk: "idx_le (warmup_sessions st) (warmup_sessions (snd (skipToNextLead e d st)))" for d
    by (rule skipToNextLead_idx_le) (rule registry_ok_not_behind [OF ok])
  have "idx_le (warmup_sessions st) (warmup_sessions (snd (listener_onTimeout e r d st)))" for r d
    using sk [of d] by (simp add: listener_onTimeout_def split: option.splits)
  with CallOnTimeout show ?thesis by (cases c) (simp_all add: run_action_def)
qed (simp_all add: run_action_def)

lemma step_idx_le:
  assumes ok: "registry_ok st" and ns: "\<not> stale_callback st ev"
      and ev: "\<forall>d. ev \<noteq> StartWarmup d \<and> ev \<noteq> ResumeWarmup d"
  shows "idx_le (warmup_sessions st) (warmup_sessions (step e ev st))"
proof (cases ev)
  case (StartWarmup d)
  with ev show ?thesis by simp
next
  case (ResumeWarmup d)
  with ev show ?thesis by simp
next
  case (PauseWarmup d)
  with pauseWarmup_idx_le show ?thesis by (simp add: step_def)
next
  case (StopWarmup d)
  with stopWarmup_idx_le show ?thesis by (simp add: step_def)
next
  case (TimerFires t)
  show ?thesis
  proof (cases "pending_timers st t")
    case None
    with TimerFires show ?thesis by (simp add: step_def)
  next
    case (Some p)
    obtain dl task where p: "p = (dl, task)" by (cases p)
    let ?st1 = "st\<lparr>pending_timers := (pending_timers st)(t := None)\<rparr>"
    have "registry_ok ?st1" by (rule same_core_registry_ok [OF same_core_upd(4) ok])
    from run_task_idx_le [OF this, of e task] TimerFires Some p show ?thesis
      by (simp add: step_def)
  qed
next
  case (ListenerEvent l lev)
  show ?thesis
  proof (cases "listener_objs st l")
    case None
    with ListenerEvent show ?thesis by (simp add: step_def)
  next
    case (Some obj)
    obtain obj' acts where h: "handle_event lev obj = (obj', acts)" by (cases "handle_event lev obj")
    let ?st1 = "st\<lparr>listener_objs := (listener_objs st)(l \<mapsto> obj')\<rparr>"
    have ok1: "registry_ok ?st1" by (rule same_core_registry_ok [OF same_core_upd(3) ok])
    have st: "step e ev st = fold (run_action e) acts ?st1"
      using ListenerEvent Some h by (simp add: step_def)
    from handle_event_callbacks_le_1 [of lev obj] h
    have "length (filter is_callback acts) \<le> 1" by simp
    then consider "filter is_callback acts = []" | a where "filter is_callback acts = [a]"
      by (cases "filter is_callback acts") (auto simp: le_Suc_eq)
    then show ?thesis
    proof cases
      case 1
      then show ?thesis by (simp add: st fold_run_action_none)
    next
      case 2
      then have "a \<in> set (filter is_callback acts)" by simp
      then have mem: "a \<in> set (snd (handle_event lev obj))" using h by simp
      have "idx_le (warmup_sessions ?st1) (warmup_sessions (run_action e a ?st1))"
      proof (rule run_action_idx_le [OF ok1])
        fix r d x y m assume a: "a = CallOnEmail (DomainOnEmail r d x y) m"
        from handle_event_CallOnEmail [OF mem [unfolded a]]
        have lev: "lev = MessageEnd (Some m)" and c: "onEmail obj = DomainOnEmail r d x y" by simp_all
        from ns ListenerEvent Some lev c have "activeSessions st d = Some r"
          by (simp add: stale_callback_def)
        then show "activeSessions ?st1 d = Some r" by simp
      qed
      with 2 show ?thesis by (simp add: st fold_run_action_one)
    qed
  qed
qed

lemma step_index:
  assumes ok: "registry_ok st" and ns: "\<not> stale_callback st ev"
      and i: "index_of (warmup_sessions st) sid = Some i"
  shows "\<exists>j. index_of (warmup_sessions (step e ev st)) sid = Some j \<and>
           (if reset_by e ev st sid then j = 0 else i \<le> j)"
proof (cases "\<exists>d. ev = StartWarmup d \<or> ev = ResumeWarmup d")
  case True
  then obtain d where ev: "ev = StartWarmup d \<or> ev = ResumeWarmup d" by blast
  then have s: "step e ev st = snd (startWarmup e d st)"
    by (auto simp: step_def resumeWarmup_def)
  from ev have r: "reset_by e ev st sid = reuses_failed_row e d st sid"
    by (auto simp: reset_by_def)
  from startWarmup_index_exact [OF ok i, of e d] s r show ?thesis by simp
next
  case False
  then have ne: "\<forall>d. ev \<noteq> StartWarmup d \<and> ev \<noteq> ResumeWarmup d" by blast
  then have "\<not> reset_by e ev st sid" by (cases ev) (simp_all add: reset_by_def)
  with idx_leD [OF step_idx_le [OF ok ns ne, of e] i] show ?thesis by simp
qed

lemma index_monotone_along_run:
  assumes "registry_ok st" and "undisturbed e sid evs st"
      and "index_of (warmup_sessions st) sid = Some i"
  shows "registry_ok (fold (step e) evs st) \<and>
         (\<exists>j. index_of (warmup_sessions (fold (step e) evs st)) sid = Some j \<and> i \<le> j)"
  using assms
proof (induction evs arbitrary: st i)
  case Nil
  then show ?case by simp
next
  case (Cons ev evs)
  from Cons.prems(2) have ns: "\<not> stale_callback st ev" and nr: "\<not> reset_by e ev st sid"
    and u: "undisturbed e sid evs (step e ev st)" by simp_all
  from step_index [OF Cons.prems(1) ns Cons.prems(3), of e] nr
  obtain k where k: "index_of (warmup_sessions (step e ev st)) sid = Some k" and ik: "i \<le> k"
    by auto
  from Cons.IH [OF step_registry_ok [OF Cons.prems(1) ns] u k] ik show ?case
    by (auto intro: order_trans)
qed


lemma pause_reaches_st_paused:
  "step env0 (PauseWarmup ''d1'') (st_waiting [lead1, lead2]) = st_paused [lead1, lead2]"
  by (simp add: orch_defs repo_defs listener_defs example_defs replay_defs Let_def)

lemma resume_reaches_st_resumed:
  "step env0 (ResumeWarmup ''d1'') (st_paused [lead1, lead2]) = st_resumed [lead1, lead2]"
  by (simp add: orch_defs repo_defs smtp_defs listener_defs example_defs replay_defs Let_def)

lemma timeout_reaches_st_skipped:
  "fold (step env0)
     [ListenerEvent 3 Ready, ListenerEvent 3 (OpenBoxDone False), ListenerEvent 3 WaitTimer]
     (st_resumed [lead1, lead2]) = st_skipped [lead1, lead2]"
  by (simp add: orch_defs repo_defs listener_defs example_defs replay_defs Let_def WAIT_TIMEOUT_MS_def)




lemma start_reaches_st_waiting:
  "startWarmup env0 ''d1'' (st_leads [lead1, lead2]) =
     (Inr (Some (row_waiting\<lparr>sess_status := pending, last_message_id := None\<rparr>)),
      st_waiting [lead1, lead2])"
  by (simp add: orch_defs repo_defs smtp_defs listener_defs example_defs Let_def)

text \<open>
  C4 at a failing input. The session waits for the first lead; one search of the lead-side
  listener has fetched two messages from the domain address. The first delivery is accepted:
  it is logged, the listener is disconnected and the reply timer 2 is set. The second
  delivery, to the same callback of the now destroyed listener, is processed in the same
  way: a second \<open>received\<close> row is appended and a second reply timer 3 is set.
\<close>

theorem lead_callback_second_delivery:
  "(let s2 = step env0 (ListenerEvent 1 (MessageEnd (Some mail0))) (st_waiting [lead1, lead2]);
        s3 = step env0 (ListenerEvent 1 (MessageEnd (Some mail0))) s2
    in map_option isDestroyed (listener_objs s2 1) = Some True \<and>
       map_option leadImapListener (active_objs s2 0) = Some None \<and>
       map log_direction (mail_logs s2) = [sent, received] \<and>
       map_option timers (active_objs s2 0) = Some [2] \<and>
       pending_timers s2 2 = Some (180000, ReplyTimer ''d1'' lead1 mail0 (''Hello'', ''Hi there'')) \<and>
       map log_direction (mail_logs s3) = [sent, received, received] \<and>
       map_option timers (active_objs s3 0) = Some [2, 3] \<and>
       pending_timers s3 3 = Some (180000, ReplyTimer ''d1'' lead1 mail0 (''Hello'', ''Hi there'')))"
  by (simp add: orch_defs repo_defs listener_defs example_defs Let_def)

text \<open>
  C9 at a failing input. The lead's inbox holds an unseen message from the domain address that
  is not the message the session has sent (its Message-ID is another one). The lead callback
  accepts it on the sender's address alone, and the reply is logged with \<open>in_reply_to\<close>
  equal to the Message-ID of that message, which no \<open>sent\<close> row of the session carries.
\<close>

theorem reply_to_unsent_message:
  "(let s2 = step env0 (ListenerEvent 1 (MessageEnd (Some mail_other))) (st_waiting [lead1, lead2]);
        s3 = step (env0\<lparr>env_uuid := ''u-2''\<rparr>) (TimerFires 2) s2
    in map (\<lambda>l. (log_direction l, log_session_id l, message_id l, in_reply_to l)) (mail_logs s3) =
         [(sent, Some ''s1'', Some ''<u-1@warm.example>'', None),
          (received, Some ''s1'', Some ''<other@warm.example>'', None),
          (replied, Some ''s1'', Some ''<u-2@gmail.com>'', Some ''<other@warm.example>'')])"
  by (simp add: orch_defs repo_defs smtp_defs listener_defs example_defs Let_def)

text \<open>
  C7. Under the primary key of \<^verbatim>\<open>warmup_sessions\<close>, for a domain account that exists and a
  generated id that is not taken, \<^verbatim>\<open>sessionRepo.create\<close> returns a row, and a second call
  for the same account on the same day returns a row with the same id, account and date;
  both rows are pending at index 0 with \<^verbatim>\<open>last_message_id\<close>, \<^verbatim>\<open>error_message\<close> and
  \<^verbatim>\<open>completed_at\<close> cleared. Each returned row is the stored row of its id; the second call
  adds no row; the first call appends its row, under the generated id, when the account had
  no row of that day, and adds none otherwise.
\<close>

theorem create_or_reset_twice_same_day:
  assumes pk: "distinct (map sess_id rows)"
      and fk: "d_id \<in> set doms"
      and fresh: "id1 \<notin> set (map sess_id rows)"
  shows "\<exists>r1 rows1 r2 rows2.
           sessionRepo_create now1 day id1 doms d_id rows = Inr (r1, rows1) \<and>
           sessionRepo_create now2 day id2 doms d_id rows1 = Inr (r2, rows2) \<and>
           sess_id r2 = sess_id r1 \<and>
           domain_account_id r1 = d_id \<and> domain_account_id r2 = d_id \<and>
           session_date r1 = day \<and> session_date r2 = day \<and>
           sess_status r1 = pending \<and> sess_status r2 = pending \<and>
           current_lead_index r1 = 0 \<and> current_lead_index r2 = 0 \<and>
           last_message_id r1 = None \<and> last_message_id r2 = None \<and>
           error_message r1 = None \<and> error_message r2 = None \<and>
           completed_at r1 = None \<and> completed_at r2 = None \<and>
           sessionRepo_findById (sess_id r1) rows1 = Some r1 \<and>
           sessionRepo_findById (sess_id r2) rows2 = Some r2 \<and>
           map sess_id rows2 = map sess_id rows1 \<and>
           (if filter (\<lambda>r. domain_account_id r = d_id \<and> session_date r = day) rows = []
            then sess_id r1 = id1 \<and> rows1 = rows @ [r1]
            else map sess_id rows1 = map sess_id rows)"
proof (cases "filter (\<lambda>r. domain_account_id r = d_id \<and> session_date r = day) rows")
  case Nil
  define r1 where "r1 = inserted_row now1 day id1 d_id"
  define rows1 where "rows1 = rows @ [r1]"
  have c1: "sessionRepo_create now1 day id1 doms d_id rows = Inr (r1, rows1)"
    using Nil fk fresh by (simp add: sessionRepo_create_def Let_def r1_def rows1_def)
  have f1: "filter (\<lambda>r. domain_account_id r = d_id \<and> session_date r = day) rows1 = [r1]"
    using Nil by (simp add: r1_def rows1_def inserted_row_def)
  have d1: "distinct (map sess_id rows1)"
    using pk fresh by (simp add: r1_def rows1_def inserted_row_def)
  have m1: "r1 \<in> set rows1" by (simp add: rows1_def)
  define r2 where "r2 = reset_row now2 r1"
  define rows2 where "rows2 = map (\<lambda>r. if sess_id r = sess_id r1 then reset_row now2 r else r) rows1"
  have c2: "sessionRepo_create now2 day id2 doms d_id rows1 = Inr (r2, rows2)"
    unfolding r2_def rows2_def by (rule sessionRepo_create_existing [OF d1 f1])
  have ids2: "map sess_id rows2 = map sess_id rows1"
    unfolding rows2_def by (induction rows1) (simp_all add: reset_row_def)
  have m2: "r2 \<in> set rows2" using m1 by (force simp: rows2_def r2_def)
  have id2: "sess_id r2 = sess_id r1" by (simp add: r2_def reset_row_def)
  have fb1: "sessionRepo_findById (sess_id r1) rows1 = Some r1"
    using find_distinct_mem [OF d1 m1] by (simp add: sessionRepo_findById_def first_row_filter)
  have d2: "distinct (map sess_id rows2)" using d1 ids2 by simp
  have fb2: "sessionRepo_findById (sess_id r2) rows2 = Some r2"
    using find_distinct_mem [OF d2 m2] by (simp add: sessionRepo_findById_def first_row_filter)
  have props: "domain_account_id r1 = d_id \<and> domain_account_id r2 = d_id \<and>
           session_date r1 = day \<and> session_date r2 = day \<and>
           sess_status r1 = pending \<and> sess_status r2 = pending \<and>
           current_lead_index r1 = 0 \<and> current_lead_index r2 = 0 \<and>
           last_message_id r1 = None \<and> last_message_id r2 = None \<and>
           error_message r1 = None \<and> error_message r2 = None \<and>
           completed_at r1 = None \<and> completed_at r2 = None \<and> sess_id r1 = id1"
    by (simp add: r2_def r1_def reset_row_def inserted_row_def)
  from c1 c2 id2 fb1 fb2 ids2 props Nil rows1_def show ?thesis by auto
next
  case (Cons ex rest)
  from first_filter_mem [OF Cons]
  have ex: "ex \<in> set rows" "domain_account_id ex = d_id" "session_date ex = day" by auto
  define r1 where "r1 = reset_row now1 ex"
  define rows1 where "rows1 = map (\<lambda>r. if sess_id r = sess_id ex then reset_row now1 r else r) rows"
  have c1: "sessionRepo_create now1 day id1 doms d_id rows = Inr (r1, rows1)"
    unfolding r1_def rows1_def by (rule sessionRepo_create_existing [OF pk Cons])
  have ids1: "map sess_id rows1 = map sess_id rows"
    unfolding rows1_def by (induction rows) (simp_all add: reset_row_def)
  have d1: "distinct (map sess_id rows1)" using pk ids1 by simp
  have m1: "r1 \<in> set rows1" using ex(1) by (force simp: rows1_def r1_def)
  have "filter (\<lambda>r. domain_account_id r = d_id \<and> session_date r = day) rows1 =
          map (\<lambda>r. if sess_id r = sess_id ex then reset_row now1 r else r)
            (filter (\<lambda>r. domain_account_id r = d_id \<and> session_date r = day) rows)"
    unfolding rows1_def by (rule filter_map_preserved) (simp add: reset_row_def)
  with Cons have f1: "filter (\<lambda>r. domain_account_id r = d_id \<and> session_date r = day) rows1 =
          r1 # map (\<lambda>r. if sess_id r = sess_id ex then reset_row now1 r else r) rest"
    by (simp add: r1_def)
  define r2 where "r2 = reset_row now2 r1"
  define rows2 where "rows2 = map (\<lambda>r. if sess_id r = sess_id r1 then reset_row now2 r else r) rows1"
  have c2: "sessionRepo_create now2 day id2 doms d_id rows1 = Inr (r2, rows2)"
    unfolding r2_def rows2_def by (rule sessionRepo_create_existing [OF d1 f1])
  have ids2: "map sess_id rows2 = map sess_id rows1"
    unfolding rows2_def by (induction rows1) (simp_all add: reset_row_def)
  have m2: "r2 \<in> set rows2" using m1 by (force simp: rows2_def r2_def)
  have id2: "sess_id r2 = sess_id r1" by (simp add: r2_def reset_row_def)
  have fb1: "sessionRepo_findById (sess_id r1) rows1 = Some r1"
    using find_distinct_mem [OF d1 m1] by (simp add: sessionRepo_findById_def first_row_filter)
  have d2: "distinct (map sess_id rows2)" using d1 ids2 by simp
  have fb2: "sessionRepo_findById (sess_id r2) rows2 = Some r2"
    using find_distinct_mem [OF d2 m2] by (simp add: sessionRepo_findById_def first_row_filter)
  have props: "domain_account_id r1 = d_id \<and> domain_account_id r2 = d_id \<and>
           session_date r1 = day \<and> session_date r2 = day \<and>
           sess_status r1 = pending \<and> sess_status r2 = pending \<and>
           current_lead_index r1 = 0 \<and> current_lead_index r2 = 0 \<and>
           last_message_id r1 = None \<and> last_message_id r2 = None \<and>
           error_message r1 = None \<and> error_message r2 = None \<and>
           completed_at r1 = None \<and> completed_at r2 = None"
    using ex by (simp add: r2_def r1_def reset_row_def)
  from c1 c2 id2 fb1 fb2 ids2 ids1 props Cons show ?thesis by auto
qed

theorem create_or_reset_twice_same_day_witness:
  "(\<exists>r1 rows1 r2 rows2.
     sessionRepo_create 20 8 ''s2'' [''d1''] ''d1'' [row0] = Inr (r1, rows1) \<and>
     sessionRepo_create 30 8 ''s3'' [''d1''] ''d1'' rows1 = Inr (r2, rows2) \<and>
     rows1 = [row0, r1] \<and> sess_id r1 = ''s2'' \<and> sess_id r2 = ''s2'' \<and>
     session_date r2 = 8 \<and> sess_status r2 = pending \<and> current_lead_index r2 = 0 \<and>
     map sess_id rows2 = [''s1'', ''s2'']) \<and>
   (\<exists>r1 rows1 r2 rows2.
     sessionRepo_create 20 7 ''s2'' [''d1''] ''d1'' [row0] = Inr (r1, rows1) \<and>
     sessionRepo_create 30 7 ''s3'' [''d1''] ''d1'' rows1 = Inr (r2, rows2) \<and>
     sess_id r1 = ''s1'' \<and> sess_id r2 = ''s1'' \<and>
     sess_status r2 = pending \<and> current_lead_index r2 = 0 \<and>
     map sess_id rows1 = [''s1''] \<and> map sess_id rows2 = [''s1''])"
proof -
  have pk: "distinct (map sess_id [row0])" by simp
  have fk: "''d1'' \<in> set [''d1'']" by simp
  have fresh: "''s2'' \<notin> set (map sess_id [row0])" by (simp add: row0_def)
  have nil: "filter (\<lambda>r. domain_account_id r = ''d1'' \<and> session_date r = 8) [row0] = []"
    by (simp add: row0_def)
  have one: "filter (\<lambda>r. domain_account_id r = ''d1'' \<and> session_date r = 7) [row0] = [row0]"
    by (simp add: row0_def)
  have c1: "sessionRepo_create 20 7 ''s2'' [''d1''] ''d1'' [row0] =
              Inr (reset_row 20 row0, [reset_row 20 row0])"
    by (simp add: sessionRepo_create_def update_where_id_def reset_row_def row0_def Let_def)
  have a: "\<exists>r1 rows1 r2 rows2.
     sessionRepo_create 20 8 ''s2'' [''d1''] ''d1'' [row0] = Inr (r1, rows1) \<and>
     sessionRepo_create 30 8 ''s3'' [''d1''] ''d1'' rows1 = Inr (r2, rows2) \<and>
     rows1 = [row0, r1] \<and> sess_id r1 = ''s2'' \<and> sess_id r2 = ''s2'' \<and>
     session_date r2 = 8 \<and> sess_status r2 = pending \<and> current_lead_index r2 = 0 \<and>
     map sess_id rows2 = [''s1'', ''s2'']"
    using create_or_reset_twice_same_day [OF pk fk fresh, of 20 8 30 "''s3''"] nil
    by (auto simp: row0_def)
  have b: "\<exists>r1 rows1 r2 rows2.
     sessionRepo_create 20 7 ''s2'' [''d1''] ''d1'' [row0] = Inr (r1, rows1) \<and>
     sessionRepo_create 30 7 ''s3'' [''d1''] ''d1'' rows1 = Inr (r2, rows2) \<and>
     sess_id r1 = ''s1'' \<and> sess_id r2 = ''s1'' \<and>
     sess_status r2 = pending \<and> current_lead_index r2 = 0 \<and>
     map sess_id rows1 = [''s1''] \<and> map sess_id rows2 = [''s1'']"
    using create_or_reset_twice_same_day [OF pk fk fresh, of 20 7 30 "''s3''"] one c1
    by (auto simp: reset_row_def row0_def)
  from a b show ?thesis by blast
qed

text \<open>
  C5. With no lead account, \<^verbatim>\<open>startWarmup\<close> (and \<^verbatim>\<open>resumeWarmup\<close>, which is the same
  function) throws and leaves the whole state as it was: no session row is created or reset
  and no account status is written. For an account that exists and has no orchestrator the
  error is the one about the missing leads.
\<close>

theorem start_without_leads_rejected:
  assumes "lead_accounts st = []"
  shows "(\<exists>err. startWarmup e d st = (Inl err, st)) \<and>
         (activeSessions st d = None \<longrightarrow>
          domainAccountRepo_findById d (domain_accounts st) \<noteq> None \<longrightarrow>
          startWarmup e d st =
            (Inl (Error ''No lead accounts configured. Add at least one lead Gmail account.''), st)) \<and>
         resumeWarmup e d st = startWarmup e d st"
  using assms by (auto simp: startWarmup_def resumeWarmup_def split: option.splits)

theorem start_without_leads_rejected_witness:
  "startWarmup env0 ''d1'' (st_leads []) =
     (Inl (Error ''No lead accounts configured. Add at least one lead Gmail account.''), st_leads [])"
proof -
  have a: "lead_accounts (st_leads []) = []" by (simp add: st_leads_def)
  have b: "activeSessions (st_leads []) ''d1'' = None" by (simp add: st_leads_def)
  have c: "domainAccountRepo_findById ''d1'' (domain_accounts (st_leads [])) \<noteq> None"
    by (simp add: st_leads_def domainAccountRepo_findById_def first_row_def dom1_def)
  from start_without_leads_rejected [OF a, of env0 "''d1''"] b c show ?thesis by blast
qed

lemma pauseWarmup_unregisters:
  assumes "pauseWarmup e d st = (Inr res, st1)"
  shows "activeSessions st1 d = None"
  using assms
  by (auto simp: pauseWarmup_def Let_def split: option.splits prod.splits)

lemma pauseWarmup_unregistered:
  "activeSessions st d = None \<Longrightarrow>
   pauseWarmup e d st = (Inl (Error ''No active warm-up session found for this domain account''), st)"
  by (simp add: pauseWarmup_def get_active_unregistered)

text \<open>
  Counterexample to C3 as stated: with a running orchestrator the first \<^verbatim>\<open>pauseWarmup\<close>
  returns the paused row, and the second one throws.
\<close>

theorem pause_twice_counterexample:
  "(let (r1, s1) = pauseWarmup env0 ''d1'' (st_waiting [lead1, lead2]);
        (r2, s2) = pauseWarmup env0 ''d1'' s1
    in r1 = Inr (Some (row_waiting\<lparr>sess_status := paused\<rparr>)) \<and>
       r2 = Inl (Error ''No active warm-up session found for this domain account''))"
  by (simp add: orch_defs repo_defs listener_defs example_defs Let_def)

text \<open>
  C3, amended. After a \<^verbatim>\<open>pauseWarmup\<close> that returned, a second one is rejected with
  "No active warm-up session found" and changes nothing, so the session row stays as the
  first call left it. \<^verbatim>\<open>stopWarmup\<close> for an account with no orchestrator and no
  non-terminal row of today returns normally and changes nothing.
\<close>

theorem second_pause_rejected_stop_idle_noop:
  "(pauseWarmup e d st = (Inr res, st1) \<longrightarrow>
      pauseWarmup e' d st1 =
        (Inl (Error ''No active warm-up session found for this domain account''), st1)) \<and>
   (activeSessions st d = None \<longrightarrow>
    sessionRepo_findActiveToday (env_today e) d (warmup_sessions st) = None \<longrightarrow>
      stopWarmup e d st = (None, st))"
  using pauseWarmup_unregisters [of e d st res st1] pauseWarmup_unregistered [of st1 d e']
  by (auto simp: stopWarmup_def get_active_unregistered)


theorem second_pause_rejected_stop_idle_noop_witness:
  "(let st1 = snd (pauseWarmup env0 ''d1'' (st_waiting [lead1, lead2]));
        st2 = snd (stopWarmup env0 ''d1'' (st_waiting [lead1, lead2]))
    in pauseWarmup env0 ''d1'' st1 =
         (Inl (Error ''No active warm-up session found for this domain account''), st1) \<and>
       map sess_status (warmup_sessions st2) = [failed] \<and>
       stopWarmup env0 ''d1'' st2 = (None, st2))"
proof -
  let ?st = "st_waiting [lead1, lead2]"
  let ?st1 = "snd (pauseWarmup env0 ''d1'' ?st)"
  let ?st2 = "snd (stopWarmup env0 ''d1'' ?st)"
  have "fst (pauseWarmup env0 ''d1'' ?st) = Inr (Some (row_waiting\<lparr>sess_status := paused\<rparr>))"
    by (simp add: orch_defs repo_defs listener_defs example_defs Let_def)
  then have p: "pauseWarmup env0 ''d1'' ?st = (Inr (Some (row_waiting\<lparr>sess_status := paused\<rparr>)), ?st1)"
    by (metis prod.collapse)
  have a: "activeSessions ?st2 ''d1'' = None"
    by (simp add: orch_defs repo_defs listener_defs example_defs Let_def)
  have f: "map sess_status (warmup_sessions ?st2) = [failed]"
    by (simp add: orch_defs repo_defs listener_defs example_defs Let_def)
  have n: "sessionRepo_findActiveToday (env_today env0) ''d1'' (warmup_sessions ?st2) = None"
    by (simp add: orch_defs repo_defs listener_defs example_defs Let_def)
  from second_pause_rejected_stop_idle_noop
         [of env0 "''d1''" ?st "Some (row_waiting\<lparr>sess_status := paused\<rparr>)" ?st1 env0]
       p
  have 1: "pauseWarmup env0 ''d1'' ?st1 =
         (Inl (Error ''No active warm-up session found for this domain account''), ?st1)"
    by blast
  from second_pause_rejected_stop_idle_noop
         [of env0 "''d1''" ?st2 "Some (row_waiting\<lparr>sess_status := paused\<rparr>)" ?st1 env0]
       a n
  have 2: "stopWarmup env0 ''d1'' ?st2 = (None, ?st2)" by blast
  from 1 2 f show ?thesis by (simp only: Let_def)
qed

text \<open>
  Counterexample to C6 as stated. The session has one lead and waits for it; the lead-side
  listener connects, opens the inbox and its wait timer fires. At the end of that very event
  the session is already completed, and no timer has been set: there is no wait of ten
  seconds before the completion.
\<close>

theorem skip_last_lead_completes_without_wait:
  "(let st' = fold (step env0)
                [ListenerEvent 1 Ready, ListenerEvent 1 (OpenBoxDone False), ListenerEvent 1 WaitTimer]
                (st_waiting [lead1])
    in map (\<lambda>r. (sess_status r, current_lead_index r, completed_at r)) (warmup_sessions st') =
         [(completed, 1, Some 100)] \<and>
       activeSessions st' ''d1'' = None \<and>
       next_ref st' = next_ref (st_waiting [lead1]) \<and>
       pending_timers st' (next_ref (st_waiting [lead1])) = None)"
  by (simp add: orch_defs repo_defs listener_defs example_defs Let_def WAIT_TIMEOUT_MS_def)

text \<open>
  C6, amended. A timeout callback of either listener of a registered orchestrator that is not
  paused, whose session row exists, at the lead of index \<open>i\<close>: both listeners of the
  orchestrator are disconnected and the row has index \<open>i + 1\<close>. If no lead is left the
  session is completed and deregistered in the same event, and no timer is set. Otherwise
  the row is \<open>sending\<close>, one timer of 10000 ms is set, and when it fires (with the text
  generator and the SMTP server answering) the next message logged as sent is the one to the
  lead of index \<open>i + 1\<close>: the skipped lead is not tried again.
\<close>

theorem timeout_skips_to_next_lead:
  fixes e e' :: env
  assumes ga: "get_active st d = Some (r, a)" and np: "\<not> isPaused a" and s: "session a = Some s"
      and ex: "sess_id s \<in> sess_id ` set (warmup_sessions st)"
      and c: "c = LeadOnTimeout r d lead \<or> c = DomainOnTimeout r d x"
  shows "(let st' = run_action e (CallOnTimeout c) st; i = current_lead_index s
          in (\<forall>l. leadImapListener a = Some l \<or> domainImapListener a = Some l \<longrightarrow> destroyed st' l) \<and>
             index_of (warmup_sessions st') (sess_id s) = Some (i + 1) \<and>
             (if length (leads a) \<le> i + 1 then
                status_of (warmup_sessions st') (sess_id s) = Some completed \<and>
                activeSessions st' d = None \<and> next_ref st' = next_ref st \<and>
                dom (pending_timers st') \<subseteq> dom (pending_timers st)
              else
                status_of (warmup_sessions st') (sess_id s) = Some sending \<and>
                pending_timers st' = (pending_timers st)(next_ref st \<mapsto> (10000, NextLeadTimer d)) \<and>
                (answers e' \<longrightarrow>
                   (\<exists>entry. mail_logs (step e' (TimerFires (next_ref st)) st') = mail_logs st @ [entry] \<and>
                      log_direction entry = sent \<and> lead_index entry = Some (i + 1) \<and>
                      to_email entry = lead_email (leads a ! (i + 1))))))"
proof -
  from get_active_SomeD [OF ga] s have "listener_onTimeout e r d st = skipToNextLead e d st"
    by (simp add: listener_onTimeout_def)
  with c have ra: "run_action e (CallOnTimeout c) st = snd (skipToNextLead e d st)"
    by (auto simp: run_action_def)
  show ?thesis
  proof (cases "length (leads a) \<le> current_lead_index s + 1")
    case True
    from skip_final [OF ga np s ex True, of e] True ra show ?thesis by (simp add: Let_def)
  next
    case False
    from skip_nonfinal [OF ga np s ex False, of e e'] False ra show ?thesis by (simp add: Let_def)
  qed
qed

theorem timeout_skips_to_next_lead_witness:
  "(let st' = run_action env0 (CallOnTimeout (LeadOnTimeout 0 ''d1'' lead1)) (st_waiting [lead1, lead2])
    in destroyed st' 1 \<and>
       index_of (warmup_sessions st') ''s1'' = Some 1 \<and>
       status_of (warmup_sessions st') ''s1'' = Some sending \<and>
       pending_timers st' 2 = Some (10000, NextLeadTimer ''d1'') \<and>
       (\<exists>entry. mail_logs (step env0 (TimerFires 2) st') = [log_sent1, entry] \<and>
          log_direction entry = sent \<and> lead_index entry = Some 1 \<and>
          to_email entry = ''lead2@gmail.com''))"
proof -
  let ?st = "st_waiting [lead1, lead2]"
  let ?a = "active_waiting [lead1, lead2]"
  have ga: "get_active ?st ''d1'' = Some (0, ?a)" by (simp add: get_active_def st_waiting_def)
  have np: "\<not> isPaused ?a" by (simp add: active_waiting_def)
  have s: "session ?a = Some row_waiting" by (simp add: active_waiting_def)
  have ex: "sess_id row_waiting \<in> sess_id ` set (warmup_sessions ?st)" by (simp add: st_waiting_def)
  have c: "LeadOnTimeout 0 ''d1'' lead1 = LeadOnTimeout 0 ''d1'' lead1 \<or>
           LeadOnTimeout 0 ''d1'' lead1 = DomainOnTimeout 0 ''d1'' ''x''" by simp
  have an: "answers env0" by (simp add: answers_def env0_def)
  have l: "leadImapListener ?a = Some 1" by (simp add: active_waiting_def)
  have n: "\<not> length (leads ?a) \<le> current_lead_index row_waiting + 1"
    by (simp add: active_waiting_def row_waiting_def)
  from timeout_skips_to_next_lead [OF ga np s ex c, of env0 env0] l n an
  show ?thesis
    by (simp add: Let_def st_waiting_def active_waiting_def row_waiting_def lead2_def lead1_def)
qed


text \<open>The state \<open>st_skipped\<close> is what start, pause, resume and one wait timeout of the new
  lead-side listener leave behind.\<close>

lemma replay_reaches_st_skipped:
  "fold (step env0)
     [StartWarmup ''d1'', PauseWarmup ''d1'', ResumeWarmup ''d1'',
      ListenerEvent 3 Ready, ListenerEvent 3 (OpenBoxDone False), ListenerEvent 3 WaitTimer]
     (st_leads [lead1, lead2]) = st_skipped [lead1, lead2]"
proof -
  have "step env0 (StartWarmup ''d1'') (st_leads [lead1, lead2]) = st_waiting [lead1, lead2]"
    by (simp add: step_def start_reaches_st_waiting)
  with pause_reaches_st_paused resume_reaches_st_resumed timeout_reaches_st_skipped
  show ?thesis by simp
qed



end
